theory Spec2Isabelle
  imports Complex_Main
begin

text \<open>
  The analysis core of the CEUS blood-flow analyser, embedded function by function:
  the smoother (\<open>loess_smooth\<close>), the event detector (\<open>detect_flash_ceus_refined\<close>),
  the metrics (\<open>_metrics_from_curve\<close>), the region classifier (\<open>DICOMLoader\<close>), the
  model fitter (\<open>fit_model\<close>, \<open>fit_models\<close>) and the preprocessor
  (\<open>preprocess_ceus\<close>). The definitions come first, one section for each source file;
  the properties follow. Floats are real numbers throughout: the arithmetic is exact, and
  NaN and infinity appear only where the code sets them (\<open>fl\<close>, \<open>xreal\<close>). The routines
  of numpy and scipy are defined by what their documentation says they compute;
  \<open>np.linalg.lstsq\<close>, \<open>np.polyfit\<close>, \<open>curve_fit\<close>, \<open>math.gamma\<close> and the random
  generator are parameters.
\<close>

section \<open>Exceptions\<close>

text \<open>
  The Python exceptions that the embedded functions can raise. A function that may raise
  returns \<open>error + 'a\<close>, with \<open>Inl\<close> for the exception; a \<open>try/except Exception\<close> of the
  source is a case distinction on that sum.
\<close>

datatype error = ValueError | IndexError | KeyError | TypeError | RuntimeError
  | LinAlgError | ZeroDivisionError | AssertionError

text \<open>Running a list of fallible steps; the first exception aborts the loop.\<close>

fun collect :: "(error + 'a) list \<Rightarrow> error + 'a list" where
  "collect [] = Inr []"
| "collect (Inl e # _) = Inl e"
| "collect (Inr v # rs) = (case collect rs of Inl e \<Rightarrow> Inl e | Inr vs \<Rightarrow> Inr (v # vs))"


section \<open>Smoother: \<open>src/utils/loess.py\<close>\<close>

text \<open>
  Arrays of floats are lists of reals: every operation is taken in exact arithmetic.
  \<open>np.linalg.lstsq\<close> is a library routine and is a parameter \<open>lstsq\<close> of the model;
  it receives the matrix \<open>X\<^sup>T W X\<close> (a list of rows) and the vector \<open>X\<^sup>T W y\<close>.
\<close>

type_synonym solver = "real list list \<Rightarrow> real list \<Rightarrow> error + real list"

definition tricube :: "real \<Rightarrow> real" where
  "tricube u = (let a = 1 - (min 1 (max 0 \<bar>u\<bar>)) ^ 3 in a ^ 3)"

text \<open>
  \<open>np.argsort\<close> followed by \<open>np.unique(..., return_index=True)\<close>: the points sorted by
  abscissa, then one point kept for each distinct abscissa, the first of its run.
  (The sort of the model is stable; numpy's default sort fixes no order among equal keys.)
\<close>

fun unique_first :: "(real \<times> real) list \<Rightarrow> (real \<times> real) list" where
  "unique_first (p # q # r) =
     (if fst p = fst q then unique_first (p # r) else p # unique_first (q # r))"
| "unique_first ps = ps"

definition sort_unique :: "real list \<Rightarrow> real list \<Rightarrow> (real \<times> real) list" where
  "sort_unique x y = unique_first (sort_key fst (zip x y))"

text \<open>The neighbourhood size \<open>k\<close> (lines 41 to 44); \<open>n\<close> is the number of distinct abscissae.\<close>

definition neighbourhood_k :: "real \<Rightarrow> int \<Rightarrow> nat \<Rightarrow> int" where
  "neighbourhood_k spn degree n =
     (let p_min = (if degree \<ge> 2 then 2 else 1);
          k0 = \<lfloor>max 0 (min 1 spn) * real n\<rfloor>;
          k1 = max (p_min + 1) k0
      in min (max k1 2) (max (int n - 1) 1))"

definition distances :: "(real \<times> real) list \<Rightarrow> real \<Rightarrow> real list" where
  "distances pts xi = map (\<lambda>p. \<bar>fst p - xi\<bar>) pts"

text \<open>\<open>kk = min(k, d_nonzero.size)\<close>: the rank of the neighbour whose distance is the bandwidth.\<close>

definition neighbourhood_size :: "int \<Rightarrow> real list \<Rightarrow> int" where
  "neighbourhood_size k d = min k (int (length (filter (\<lambda>v. v > 0) d)))"

definition bandwidth :: "int \<Rightarrow> real list \<Rightarrow> real" where
  "bandwidth k d =
     (let d_nonzero = filter (\<lambda>v. v > 0) d in
      if length d_nonzero = 0 then 1
      else
        let kk = neighbourhood_size k d;
            dk = sort d_nonzero ! nat (kk - 1)
        in if dk \<le> 0 then (if Max (set d_nonzero) > 0 then Max (set d_nonzero) else 1)
           else dk)"

text \<open>
  The design matrix by columns (\<open>1\<close>, \<open>z\<close>, and \<open>z\<^sup>2\<close> when \<open>degree \<ge> 2\<close>), and the
  products \<open>X\<^sup>T W X\<close> and \<open>X\<^sup>T W y\<close> for \<open>W = diag(ws)\<close>.
\<close>

definition design_columns :: "int \<Rightarrow> real list \<Rightarrow> real list list" where
  "design_columns degree z =
     [map (\<lambda>_. 1) z, z] @ (if degree \<ge> 2 then [map (\<lambda>v. v ^ 2) z] else [])"

definition wdot :: "real list \<Rightarrow> real list \<Rightarrow> real list \<Rightarrow> real" where
  "wdot a w b = sum_list (map (\<lambda>(u, v, t). u * v * t) (zip a (zip w b)))"

definition normal_matrix :: "real list list \<Rightarrow> real list \<Rightarrow> real list list" where
  "normal_matrix cols ws = map (\<lambda>ca. map (\<lambda>cb. wdot ca ws cb) cols) cols"

definition normal_rhs :: "real list list \<Rightarrow> real list \<Rightarrow> real list \<Rightarrow> real list" where
  "normal_rhs cols ws ys = map (\<lambda>ca. wdot ca ws ys) cols"

text \<open>\<open>np.average(ys, weights=ws)\<close>, which raises when the weights sum to zero.\<close>

definition average :: "real list \<Rightarrow> real list \<Rightarrow> error + real" where
  "average ys ws =
     (if sum_list ws = 0 then Inl ZeroDivisionError
      else Inr (sum_list (map (\<lambda>(u, v). u * v) (zip ys ws)) / sum_list ws))"

text \<open>
  The body of the loop over the evaluation points (lines 49 to 82). The \<open>try\<close> covers
  the call of \<open>lstsq\<close> and the read of \<open>beta[0]\<close>; the fallback is outside of it.
\<close>

definition fit_at :: "solver \<Rightarrow> int \<Rightarrow> int \<Rightarrow> (real \<times> real) list \<Rightarrow> real \<Rightarrow> error + real" where
  "fit_at lstsq degree k pts xi =
     (let d = distances pts xi;
          dk = bandwidth k d;
          w = map (\<lambda>v. tricube (v / dk)) d;
          sel = filter (\<lambda>(p, wt). wt > 0) (zip pts w);
          xs = map (\<lambda>(p, wt). fst p) sel;
          ys = map (\<lambda>(p, wt). snd p) sel;
          ws = map (\<lambda>(p, wt). wt) sel;
          z = map (\<lambda>v. (v - xi) / dk) xs;
          cols = design_columns degree z
      in case lstsq (normal_matrix cols ws) (normal_rhs cols ws ys) of
           Inr (b0 # _) \<Rightarrow> Inr b0
         | _ \<Rightarrow> average ys ws)"

text \<open>
  \<open>np.interp(v, xp, fp)\<close> at one point, the knots given as pairs in increasing order of
  abscissa: constant outside the knots, linear between two of them.
\<close>

fun interp :: "real \<Rightarrow> (real \<times> real) list \<Rightarrow> error + real" where
  "interp v [] = Inl ValueError"
| "interp v [(a, fa)] = Inr fa"
| "interp v ((a, fa) # (b, fb) # r) =
     (if v \<le> a then Inr fa
      else if v < b then Inr (fa + (fb - fa) / (b - a) * (v - a))
      else interp v ((b, fb) # r))"

definition loess_smooth :: "solver \<Rightarrow> real list \<Rightarrow> real list \<Rightarrow> real \<Rightarrow> int \<Rightarrow> error + real list" where
  "loess_smooth lstsq x y spn degree =
     (let n = length x in
      if n = 0 then Inr y
      else if n = 1 \<or> spn \<le> 0 then Inr y
      else if length y < n then Inl IndexError
      else
        let pts = sort_unique x y;
            k = neighbourhood_k spn degree (length pts)
        in case collect (map (\<lambda>p. fit_at lstsq degree k pts (fst p)) pts) of
             Inl e \<Rightarrow> Inl e
           | Inr y_fit_sorted \<Rightarrow>
               collect (map (\<lambda>v. interp v (zip (map fst pts) y_fit_sorted)) x))"



section \<open>Pixel volumes\<close>

text \<open>
  A numpy array of frames is a nested list: \<open>S3\<close> for shape \<open>(T, H, W)\<close> and \<open>S4\<close> for
  shape \<open>(T, H, W, C)\<close>. An array is rectangular and the volumes of the pipeline have no
  empty axis; \<open>valid_stack\<close> says so.
\<close>

datatype stack = S3 "real list list list" | S4 "real list list list list"

definition rect3 :: "'a list list list \<Rightarrow> bool" where
  "rect3 X \<longleftrightarrow> X \<noteq> [] \<and> hd X \<noteq> [] \<and> hd (hd X) \<noteq> []
     \<and> (\<forall>f \<in> set X. length f = length (hd X)
           \<and> (\<forall>r \<in> set f. length r = length (hd (hd X))))"

fun valid_stack :: "stack \<Rightarrow> bool" where
  "valid_stack (S3 X) = rect3 X"
| "valid_stack (S4 X) =
     (rect3 X \<and> hd (hd (hd X)) \<noteq> []
        \<and> (\<forall>f \<in> set X. \<forall>r \<in> set f. \<forall>px \<in> set r. length px = length (hd (hd (hd X)))))"

fun shape :: "stack \<Rightarrow> nat list" where
  "shape (S3 X) = [length X, length (hd X), length (hd (hd X))]"
| "shape (S4 X) = [length X, length (hd X), length (hd (hd X)), length (hd (hd (hd X)))]"

definition mean :: "real list \<Rightarrow> real" where
  "mean vs = sum_list vs / real (length vs)"


section \<open>EventDetector: \<open>core/flash_detection.py\<close>\<close>






text \<open>\<open>np.diff\<close>.\<close>

fun diff :: "real list \<Rightarrow> real list" where
  "diff (a # b # r) = (b - a) # diff (b # r)"
| "diff _ = []"





section \<open>MetricsEngine: \<open>_metrics_from_curve\<close> in \<open>ui/napari_main_window.py\<close>\<close>

text \<open>
  A Python float that may be the not-a-number sentinel. The curves are arrays of finite
  floats, taken as reals, so every number computed from them is finite and
  \<open>np.isfinite\<close> holds of every \<open>Num\<close>.
\<close>

datatype fl = Num real | NaN

definition ebind :: "error + 'a \<Rightarrow> ('a \<Rightarrow> error + 'b) \<Rightarrow> error + 'b" where
  "ebind r f = (case r of Inl e \<Rightarrow> Inl e | Inr v \<Rightarrow> f v)"

text \<open>A \<open>try\<close> block that computes a float, with the handler \<open>except Exception: nan\<close>.\<close>

definition or_nan :: "error + real \<Rightarrow> fl" where
  "or_nan r = (case r of Inl _ \<Rightarrow> NaN | Inr v \<Rightarrow> Num v)"

text \<open>
  An elementwise operation on two one-dimensional arrays under numpy's broadcasting:
  equal lengths, or one of the two of length one; anything else raises.
\<close>

definition broadcast :: "(real \<Rightarrow> real \<Rightarrow> real) \<Rightarrow> real list \<Rightarrow> real list \<Rightarrow> error + real list" where
  "broadcast f a b =
     (if length a = length b then Inr (map (\<lambda>(u, v). f u v) (zip a b))
      else if length a = 1 then Inr (map (f (hd a)) b)
      else if length b = 1 then Inr (map (\<lambda>u. f u (hd b)) a)
      else Inl ValueError)"

text \<open>\<open>np.trapz(y, x)\<close>: \<open>(diff(x) * (y[1:] + y[:-1]) / 2).sum()\<close>.\<close>

definition trapz :: "real list \<Rightarrow> real list \<Rightarrow> error + real" where
  "trapz y x =
     ebind (broadcast (\<lambda>d v. d * v / 2) (diff x) (map (\<lambda>(u, v). u + v) (zip (tl y) (butlast y))))
       (\<lambda>vs. Inr (sum_list vs))"

text \<open>\<open>np.argmax\<close>: the scan keeps the first of equal maxima.\<close>

fun argmax_loop :: "real list \<Rightarrow> nat \<Rightarrow> nat \<Rightarrow> real \<Rightarrow> nat" where
  "argmax_loop [] i best bv = best"
| "argmax_loop (v # vs) i best bv =
     (if v > bv then argmax_loop vs (Suc i) i v else argmax_loop vs (Suc i) best bv)"

definition argmax :: "real list \<Rightarrow> error + nat" where
  "argmax xs = (case xs of [] \<Rightarrow> Inl ValueError | v # vs \<Rightarrow> Inr (argmax_loop vs 1 0 v))"

text \<open>Reading \<open>a[i]\<close> and \<open>a[idx]\<close> for an array of indices; out of range raises.\<close>

definition item :: "real list \<Rightarrow> nat \<Rightarrow> error + real" where
  "item a i = (if i < length a then Inr (a ! i) else Inl IndexError)"

definition items :: "real list \<Rightarrow> nat list \<Rightarrow> error + real list" where
  "items a idx = collect (map (item a) idx)"

text \<open>\<open>np.nanmax\<close> of an array without NaN; an empty array raises.\<close>

definition nanmax :: "real list \<Rightarrow> error + real" where
  "nanmax vs = (if vs = [] then Inl ValueError else Inr (Max (set vs)))"

definition nan_metrics :: "string \<rightharpoonup> fl" where
  "nan_metrics = map_of [(''AUC'', NaN), (''MTT'', NaN), (''Peak'', NaN), (''TTP'', NaN),
     (''Slope_10_90'', NaN)]"

text \<open>
  \<open>_metrics_from_curve\<close>. \<open>np.polyfit(x, y, 1)[0]\<close> is a library routine and the
  parameter \<open>polyfit\<close> of the model; it may raise. Each metric is computed in its own
  \<open>try\<close>, one definition for each, so the function has no exceptional result: it returns
  a dictionary.
\<close>

definition metric_auc :: "real list \<Rightarrow> real list \<Rightarrow> fl" where
  "metric_auc t y_pos = or_nan (trapz y_pos t)"

definition metric_mtt :: "real list \<Rightarrow> real list \<Rightarrow> fl \<Rightarrow> fl" where
  "metric_mtt t y_pos auc =
     (case auc of
        Num a \<Rightarrow>
          if a > 0
          then or_nan (ebind (broadcast (*) t y_pos)
                 (\<lambda>ty. ebind (trapz ty t) (\<lambda>m. Inr (m / a))))
          else NaN
      | NaN \<Rightarrow> NaN)"

definition metric_peak_ttp :: "real list \<Rightarrow> real list \<Rightarrow> fl \<times> fl" where
  "metric_peak_ttp t y =
     (case ebind (argmax y) (\<lambda>i_max. ebind (item y i_max)
             (\<lambda>p. ebind (item t i_max) (\<lambda>tp. Inr (p, tp)))) of
        Inl _ \<Rightarrow> (NaN, NaN)
      | Inr (p, tp) \<Rightarrow> (Num p, Num tp))"

definition metric_slope ::
  "(real list \<Rightarrow> real list \<Rightarrow> error + real) \<Rightarrow> real list \<Rightarrow> real list \<Rightarrow> fl \<Rightarrow> fl" where
  "metric_slope polyfit t y peak =
     (case peak of
        Num p \<Rightarrow>
          if p > 0
          then
            let y10 = 1 / 10 * p;
                y90 = 9 / 10 * p;
                idx = filter (\<lambda>i. y ! i \<ge> y10 \<and> y ! i \<le> y90) [0..<length y]
            in if length idx \<ge> 2
               then or_nan (ebind (items t idx)
                      (\<lambda>tx. ebind (items y idx) (\<lambda>yx. polyfit tx yx)))
               else NaN
          else NaN
      | NaN \<Rightarrow> NaN)"

definition metric_maxdiff :: "real list \<Rightarrow> real list \<Rightarrow> fl" where
  "metric_maxdiff t y =
     (if length t \<ge> 2
      then or_nan (ebind (broadcast (\<lambda>a b. \<bar>a / b\<bar>) (diff y)
                    (map (\<lambda>d. if d = 0 then 1 / 10 ^ 9 else d) (diff t))) nanmax)
      else NaN)"

definition metrics_from_curve ::
  "(real list \<Rightarrow> real list \<Rightarrow> error + real) \<Rightarrow> real list \<Rightarrow> real list \<Rightarrow> (string \<rightharpoonup> fl)" where
  "metrics_from_curve polyfit t y =
     (if length t = 0 \<or> length y = 0 then nan_metrics
      else
        let y_pos = map (max 0) y;
            auc = metric_auc t y_pos;
            mtt = metric_mtt t y_pos auc;
            peak = fst (metric_peak_ttp t y);
            ttp = snd (metric_peak_ttp t y);
            slope = metric_slope polyfit t y peak;
            maxdiff = metric_maxdiff t y
        in map_of [(''AUC'', auc), (''MTT'', mtt), (''Peak'', peak), (''TTP'', ttp),
             (''Slope_10_90'', slope), (''MaxDiff'', maxdiff)])"

text \<open>
  The peak of \<open>_export_metrics_csv\<close> (same file, \<open># Peak by magnitude (R's peak_value)\<close>):
  the maximum or the minimum of the curve, whichever is larger in absolute value.
\<close>

definition export_peak :: "real list \<Rightarrow> real" where
  "export_peak y_inc =
     (let max_pos = Max (set y_inc); min_neg = Min (set y_inc)
      in if \<bar>max_pos\<bar> \<ge> \<bar>min_neg\<bar> then max_pos else min_neg)"


section \<open>RegionClassifier: \<open>core/dicom_loader.py\<close> and \<open>utils/converters.py\<close>\<close>

text \<open>\<open>str.lower\<close> on ASCII text, and the substring test \<open>sub in s\<close>.\<close>

definition lower_char :: "char \<Rightarrow> char" where
  "lower_char c =
     (case map_of (zip ''ABCDEFGHIJKLMNOPQRSTUVWXYZ'' ''abcdefghijklmnopqrstuvwxyz'') c of
        Some l \<Rightarrow> l
      | None \<Rightarrow> c)"

definition lower :: "string \<Rightarrow> string" where
  "lower s = map lower_char s"

fun contains :: "string \<Rightarrow> string \<Rightarrow> bool" where
  "contains sub [] = (sub = [])"
| "contains sub (c # cs) = (take (length sub) (c # cs) = sub \<or> contains sub cs)"

text \<open>
  The attributes of the DICOM dataset that the loader reads with \<open>getattr(..., None)\<close>;
  an absent attribute is \<open>None\<close>.
\<close>

record region_descriptor =
  RegionDataType :: "int option"
  RegionFlags :: "int option"
  RegionLocationMinX0 :: "int option"
  RegionLocationMinY0 :: "int option"
  RegionLocationMaxX1 :: "int option"
  RegionLocationMaxY1 :: "int option"

record dataset =
  SequenceOfUltrasoundRegions :: "region_descriptor list option"
  Manufacturer :: "string option"
  PhotometricInterpretation :: "string option"

text \<open>The fields of \<open>DICOMLoader\<close> that \<open>load\<close> fills; all are \<open>None\<close> after \<open>__init__\<close>.\<close>

record loader =
  bmode_stack :: "stack option"
  ceus_stack :: "stack option"
  bmode_region_idx :: "nat option"
  ceus_region_idx :: "nat option"

definition init_loader :: loader where
  "init_loader = \<lparr>bmode_stack = None, ceus_stack = None, bmode_region_idx = None,
     ceus_region_idx = None\<rparr>"

text \<open>\<open>ycbcr_to_rgb\<close> on one pixel; \<open>astype(np.uint8)\<close> truncates the clipped value.\<close>

definition clip :: "real \<Rightarrow> real \<Rightarrow> real \<Rightarrow> real" where
  "clip v lo hi = min (max v lo) hi"

fun ycbcr_to_rgb_pixel :: "real list \<Rightarrow> error + real list" where
  "ycbcr_to_rgb_pixel (y # cb # cr # _) =
     (let r = y + 1402 / 1000 * (cr - 128);
          g = y - 344136 / 1000000 * (cb - 128) - 714136 / 1000000 * (cr - 128);
          b = y + 1772 / 1000 * (cb - 128)
      in Inr [of_int \<lfloor>clip r 0 255\<rfloor>, of_int \<lfloor>clip g 0 255\<rfloor>, of_int \<lfloor>clip b 0 255\<rfloor>])"
| "ycbcr_to_rgb_pixel _ = Inl IndexError"

definition ycbcr_to_rgb :: "real list list list \<Rightarrow> error + real list list list" where
  "ycbcr_to_rgb ycbcr = collect (map (\<lambda>row. collect (map ycbcr_to_rgb_pixel row)) ycbcr)"

definition convert_colorspace :: "dataset \<Rightarrow> stack \<Rightarrow> error + stack" where
  "convert_colorspace ds st =
     (case (PhotometricInterpretation ds, st) of
        (Some photo, S4 X) \<Rightarrow>
          if photo \<noteq> [] \<and> contains ''YBR'' photo
          then ebind (collect (map ycbcr_to_rgb X)) (\<lambda>fs. Inr (S4 fs))
          else Inr st
      | _ \<Rightarrow> Inr st)"

text \<open>\<open>np.std\<close> and \<open>_color_variance\<close>.\<close>

definition std :: "real list \<Rightarrow> real" where
  "std vs = sqrt (mean (map (\<lambda>v. (v - mean vs) ^ 2) vs))"

definition color_variance :: "stack \<Rightarrow> error + real" where
  "color_variance st =
     (case st of
        S3 X \<Rightarrow> Inr 0
      | S4 X \<Rightarrow>
          if shape st ! 3 = 3
          then
            let frame_idx = min (int (length X) div 2) (int (length X) - 1)
            in if frame_idx < 0 then Inl IndexError
               else
                 let frame = concat (X ! nat frame_idx);
                     r = map (\<lambda>px. px ! 0) frame;
                     g = map (\<lambda>px. px ! 1) frame;
                     b = map (\<lambda>px. px ! 2) frame;
                     rg_var = std (map (\<lambda>(u, v). u - v) (zip r g));
                     gb_var = std (map (\<lambda>(u, v). u - v) (zip g b));
                     rb_var = std (map (\<lambda>(u, v). u - v) (zip r b))
                 in Inr (rg_var + gb_var + rb_var)
          else Inr 0)"

text \<open>The crop \<open>arr[:, y0:y1+1, x0:x1+1]\<close> (with a trailing \<open>:\<close> for four axes).\<close>

definition crop :: "'a list list list \<Rightarrow> nat \<Rightarrow> nat \<Rightarrow> nat \<Rightarrow> nat \<Rightarrow> 'a list list list" where
  "crop X y0 y1 x0 x1 =
     map (\<lambda>f. map (\<lambda>row. take (x1 + 1 - x0) (drop x0 row)) (take (y1 + 1 - y0) (drop y0 f))) X"

fun crop_stack :: "stack \<Rightarrow> nat \<Rightarrow> nat \<Rightarrow> nat \<Rightarrow> nat \<Rightarrow> stack" where
  "crop_stack (S3 X) y0 y1 x0 x1 = S3 (crop X y0 y1 x0 x1)"
| "crop_stack (S4 X) y0 y1 x0 x1 = S4 (crop X y0 y1 x0 x1)"

text \<open>
  An entry of \<open>all_regions\<close>: \<open>(i, dtype, flags, x0, region_stack)\<close>. \<open>parse_region\<close> is
  the body of the loop of \<open>_extract_regions\<close>; \<open>None\<close> stands for its \<open>continue\<close>.
\<close>

type_synonym region = "nat \<times> int option \<times> int option \<times> int \<times> stack"

definition parse_region :: "stack \<Rightarrow> nat \<Rightarrow> region_descriptor \<Rightarrow> region option" where
  "parse_region arr i reg =
     (case (RegionLocationMinX0 reg, RegionLocationMinY0 reg,
            RegionLocationMaxX1 reg, RegionLocationMaxY1 reg) of
        (Some x0, Some y0, Some x1, Some y1) \<Rightarrow>
          let H = int (shape arr ! 1);
              W = int (shape arr ! 2);
              x0 = max 0 (min x0 (W - 1));
              y0 = max 0 (min y0 (H - 1));
              x1 = max 0 (min x1 (W - 1));
              y1 = max 0 (min y1 (H - 1))
          in if x0 \<ge> x1 \<or> y0 \<ge> y1 then None
             else Some (i, RegionDataType reg, RegionFlags reg, x0,
                    crop_stack arr (nat y0) (nat y1) (nat x0) (nat x1))
      | _ \<Rightarrow> None)"

definition classify_regions :: "dataset \<Rightarrow> region list \<Rightarrow> loader \<Rightarrow> error + loader" where
  "classify_regions ds all_regions ld =
     (let manufacturer = lower (case Manufacturer ds of None \<Rightarrow> [] | Some m \<Rightarrow> m);
          type2_regions =
            [(idx, st). (idx, dtype, flags, x0, st) \<leftarrow> all_regions, dtype = Some 2];
          type1_regions =
            [(idx, flags, x0, st). (idx, dtype, flags, x0, st) \<leftarrow> all_regions, dtype = Some 1]
      in if length type2_regions > 0 then
           (case hd type2_regions of (ceus_idx, ceus) \<Rightarrow>
              ebind (convert_colorspace ds ceus) (\<lambda>c.
                let ld1 = ld\<lparr>ceus_region_idx := Some ceus_idx, ceus_stack := Some c\<rparr>
                in if length type1_regions > 0 then
                     (case hd type1_regions of (bmode_idx, _, _, bmode) \<Rightarrow>
                        ebind (convert_colorspace ds bmode) (\<lambda>b.
                          Inr (ld1\<lparr>bmode_region_idx := Some bmode_idx, bmode_stack := Some b\<rparr>)))
                   else Inr ld1))
         else if length type1_regions \<ge> 2 then
           ebind
             (if contains ''ge'' manufacturer then
                (let sorted_regions = sort_key (\<lambda>(idx, flags, x0, st). x0) type1_regions
                 in case (sorted_regions ! 0, sorted_regions ! 1) of
                      ((bmode_idx, _, _, bmode), (ceus_idx, _, _, ceus)) \<Rightarrow>
                        Inr (bmode_idx, bmode, ceus_idx, ceus))
              else
                ebind (collect (map (\<lambda>(idx, flags, x0, st).
                         ebind (color_variance st) (\<lambda>v. Inr (idx, x0, st, v))) type1_regions))
                  (\<lambda>scores.
                     let scores = sort_key (\<lambda>(idx, x0, st, v). - v) scores
                     in case (scores ! 0, scores ! 1) of
                          ((ceus_idx, _, ceus, _), (bmode_idx, _, bmode, _)) \<Rightarrow>
                            Inr (bmode_idx, bmode, ceus_idx, ceus)))
             (\<lambda>(bmode_idx, bmode, ceus_idx, ceus).
                ebind (convert_colorspace ds ceus) (\<lambda>c.
                  ebind (convert_colorspace ds bmode) (\<lambda>b.
                    Inr (ld\<lparr>bmode_region_idx := Some bmode_idx, ceus_region_idx := Some ceus_idx,
                           ceus_stack := Some c, bmode_stack := Some b\<rparr>))))
         else if length all_regions = 1 then
           (case all_regions ! 0 of (idx, _, _, _, st) \<Rightarrow>
              ebind (convert_colorspace ds st) (\<lambda>c.
                Inr (ld\<lparr>ceus_region_idx := Some idx, ceus_stack := Some c\<rparr>)))
         else Inr ld)"

definition extract_regions :: "dataset \<Rightarrow> stack \<Rightarrow> loader \<Rightarrow> error + loader" where
  "extract_regions ds arr ld =
     (case SequenceOfUltrasoundRegions ds of
        None \<Rightarrow> ebind (convert_colorspace ds arr) (\<lambda>c. Inr (ld\<lparr>ceus_stack := Some c\<rparr>))
      | Some regions \<Rightarrow>
          if length regions = 0
          then ebind (convert_colorspace ds arr) (\<lambda>c. Inr (ld\<lparr>ceus_stack := Some c\<rparr>))
          else classify_regions ds
                 (List.map_filter (\<lambda>(i, reg). parse_region arr i reg) (enumerate 0 regions)) ld)"


section \<open>ModelFitter: \<open>analysis/models.py\<close>\<close>

text \<open>
  \<open>np.percentile\<close> (linear interpolation between the two nearest ranks; a percentile
  outside \<open>[0, 100]\<close> raises) and \<open>np.median\<close>, both on an array that is not empty.
\<close>

definition percentile :: "real list \<Rightarrow> real \<Rightarrow> error + real" where
  "percentile a q =
     (if q < 0 \<or> q > 100 then Inl ValueError
      else
        let s = sort a;
            n = length a;
            pos = q / 100 * real (n - 1);
            lo = nat \<lfloor>pos\<rfloor>;
            hi = min (lo + 1) (n - 1)
        in Inr (s ! lo + (pos - real lo) * (s ! hi - s ! lo)))"

definition median :: "real list \<Rightarrow> real" where
  "median a =
     (let s = sort a; n = length a
      in if even n then (s ! (n div 2 - 1) + s ! (n div 2)) / 2 else s ! (n div 2))"

text \<open>A float that may be \<open>np.inf\<close>: the upper bounds and the residual sum of squares.\<close>

datatype xreal = Fin real | PInf

fun xless :: "xreal \<Rightarrow> xreal \<Rightarrow> bool" where
  "xless (Fin a) (Fin b) = (a < b)"
| "xless (Fin a) PInf = True"
| "xless PInf _ = False"

fun xclip :: "real \<Rightarrow> real \<Rightarrow> xreal \<Rightarrow> real" where
  "xclip v lo (Fin hi) = min (max v lo) hi"
| "xclip v lo PInf = max v lo"

definition EPS :: real where
  "EPS = 1 / 10 ^ 9"

text \<open>
  The four kinetic curves. A curve takes the times and the five parameters; called with
  another number of parameters it raises. \<open>np.math.gamma\<close> (Euler's function, which may
  raise) is a parameter of the model.
\<close>

type_synonym curve = "real list \<Rightarrow> real list \<Rightarrow> error + real list"

fun lognormal_func :: curve where
  "lognormal_func t [AUC, u, s, t0, C] =
     Inr (map (\<lambda>ti.
       let tt = max (ti - t0) EPS;
           pdf = (1 / (sqrt (2 * pi) * s * tt)) * exp (- (1 / 2) * ((ln tt - u) / s) ^ 2);
           y = AUC * pdf + C
       in if ti \<le> t0 then C else y) t)"
| "lognormal_func t _ = Inl TypeError"

fun gamma_variate_func :: "(real \<Rightarrow> error + real) \<Rightarrow> curve" where
  "gamma_variate_func gamma t [AUC, a, b, t0, C] =
     ebind (gamma (a + 1)) (\<lambda>ga.
       Inr (map (\<lambda>ti.
         let tt = max (ti - t0) EPS;
             pdf = (tt powr a) * exp (- tt / b) / (b powr (a + 1) * ga);
             y = AUC * pdf + C
         in if ti \<le> t0 then C else y) t))"
| "gamma_variate_func gamma t _ = Inl TypeError"

fun ldrw_func :: curve where
  "ldrw_func t [AUC, u, lam, t0, C] =
     Inr (map (\<lambda>ti.
       let tt = max (ti - t0) EPS;
           coeff = exp lam / u * sqrt (u * lam / (2 * pi * tt));
           y = AUC * coeff * exp (- (1 / 2) * lam * ((u / tt) + (tt / u))) + C
       in if ti \<le> t0 then C else y) t)"
| "ldrw_func t _ = Inl TypeError"

fun fpt_func :: curve where
  "fpt_func t [AUC, u, lam, t0, C] =
     Inr (map (\<lambda>ti.
       let tt = max (ti - t0) EPS;
           coeff = exp lam / u * sqrt (lam / (2 * pi)) * (u / tt) powr (3 / 2);
           y = AUC * coeff * exp (- (1 / 2) * lam * ((u / tt) + (tt / u))) + C
       in if ti \<le> t0 then C else y) t)"
| "fpt_func t _ = Inl TypeError"

definition MODEL_FUNCS :: "(real \<Rightarrow> error + real) \<Rightarrow> string \<rightharpoonup> curve" where
  "MODEL_FUNCS gamma = map_of [(''lognormal'', lognormal_func),
     (''gamma'', gamma_variate_func gamma), (''ldrw'', ldrw_func), (''fpt'', fpt_func)]"

definition initial_guesses :: "string \<Rightarrow> real list \<Rightarrow> real list \<Rightarrow> real \<Rightarrow> real \<Rightarrow> error + real list" where
  "initial_guesses model t y t0_hint C_hint =
     ebind (trapz (map (\<lambda>v. max (v - C_hint) 0) y) t) (\<lambda>area.
       let AUC0 = max area EPS in
       if model = ''lognormal'' then
         (let u0 = max (ln (max (median (map (\<lambda>v. v - t0_hint) t)) EPS)) 0;
              s0 = 1 / 2
          in Inr [AUC0, u0, s0, t0_hint, C_hint])
       else if model = ''gamma'' then
         (let a0 = 2; b0 = max (std (map (\<lambda>v. v - t0_hint) t)) (1 / 2)
          in Inr [AUC0, a0, b0, t0_hint, C_hint])
       else if model = ''ldrw'' \<or> model = ''fpt'' then
         (let u0 = max (median (map (\<lambda>v. v - t0_hint) t)) (1 / 2);
              lam0 = 2
          in Inr [AUC0, u0, lam0, t0_hint, C_hint])
       else Inr [AUC0, 1, 1 / 2, t0_hint, C_hint])"

definition bounds :: "string \<Rightarrow> real list \<Rightarrow> real list \<Rightarrow> real list \<times> xreal list" where
  "bounds model t y =
     (let tmax = (if length t \<noteq> 0 then Max (set t) else 1);
          Cmax = max (if length y \<noteq> 0 then Max (set y) else 1) 1
      in if model = ''lognormal'' then
           ([0, 0, 1 / 100, 0, 0], [PInf, Fin 10, Fin 2, Fin tmax, Fin Cmax])
         else if model = ''gamma'' then
           ([0, 1 / 1000, 1 / 1000, 0, 0], [PInf, Fin 20, Fin 20, Fin tmax, Fin Cmax])
         else
           ([0, 1 / 1000, 1 / 1000, 0, 0], [PInf, Fin 100, Fin 20, Fin tmax, Fin Cmax]))"

text \<open>
  What the fitter takes from outside: \<open>scipy.optimize.curve_fit\<close> (\<open>None\<close> when SciPy is
  not installed; otherwise it returns the optimum or raises), \<open>math.gamma\<close>, and the
  stream of the generator, \<open>rng i\<close> being the \<open>i\<close>-th draw of
  \<open>rng.uniform(0.5, 1.5, size=p0.shape)\<close>.
\<close>

record env =
  curve_fit :: "(curve \<Rightarrow> real list \<Rightarrow> real list \<Rightarrow> real list
                  \<Rightarrow> real list \<times> xreal list \<Rightarrow> error + real list) option"
  gamma_fn :: "real \<Rightarrow> error + real"
  rng :: "nat \<Rightarrow> real list"

record fit_result =
  params :: "real list"
  rss :: xreal
  y_fit :: "real list"

text \<open>The starts (lines 98 to 104): \<open>p0\<close>, then \<open>max(1, n_starts - 1)\<close> jittered copies.\<close>

definition jitter :: "real list \<Rightarrow> real list \<Rightarrow> real list \<times> xreal list \<Rightarrow> real list" where
  "jitter p0 draw b =
     (let j = map (\<lambda>(p, u). p * u) (zip p0 draw);
          n = length j;
          j = j[n - 2 := xclip (j ! (n - 2)) (fst b ! (n - 2)) (snd b ! (n - 2))];
          j = j[n - 1 := xclip (j ! (n - 1)) (fst b ! (n - 1)) (snd b ! (n - 1))]
      in j)"

definition starts :: "env \<Rightarrow> real list \<Rightarrow> real list \<times> xreal list \<Rightarrow> int \<Rightarrow> real list list" where
  "starts e p0 b n_starts =
     p0 # map (\<lambda>i. jitter p0 (rng e i) b) [0..<nat (max 1 (n_starts - 1))]"

text \<open>The body of the \<open>try\<close> of the loop over the starts (lines 108 to 114).\<close>

definition attempt ::
  "env \<Rightarrow> curve \<Rightarrow> real list \<Rightarrow> real list \<Rightarrow> real list \<times> xreal list \<Rightarrow> real list
     \<Rightarrow> error + fit_result" where
  "attempt e func t y b guess =
     ebind (case curve_fit e of
              Some cf \<Rightarrow> ebind (cf func t y guess b) (\<lambda>popt.
                          ebind (func t popt) (\<lambda>yhat. Inr (popt, yhat)))
            | None \<Rightarrow> ebind (func t guess) (\<lambda>yhat. Inr (guess, yhat)))
       (\<lambda>(popt, yhat).
          ebind (broadcast (\<lambda>u v. (u - v) ^ 2) y yhat) (\<lambda>sq.
            Inr \<lparr>params = popt, rss = Fin (sum_list sq), y_fit = yhat\<rparr>))"

text \<open>One turn of the loop: a start that raises is skipped; a lower RSS replaces the best.\<close>

definition try_start ::
  "env \<Rightarrow> curve \<Rightarrow> real list \<Rightarrow> real list \<Rightarrow> real list \<times> xreal list \<Rightarrow> fit_result
     \<Rightarrow> real list \<Rightarrow> fit_result" where
  "try_start e func t y b best guess =
     (case attempt e func t y b guess of
        Inl _ \<Rightarrow> best
      | Inr r \<Rightarrow> if xless (rss r) (rss best) then r else best)"

definition fit_model ::
  "env \<Rightarrow> string \<Rightarrow> real list \<Rightarrow> real list \<Rightarrow> real option \<Rightarrow> real option \<Rightarrow> int
     \<Rightarrow> error + fit_result" where
  "fit_model e model t y t0_hint C_hint n_starts =
     (case MODEL_FUNCS (gamma_fn e) model of
        None \<Rightarrow> Inl KeyError
      | Some func \<Rightarrow>
          let t0 = (case t0_hint of Some v \<Rightarrow> v
                    | None \<Rightarrow> if length t \<noteq> 0 then t ! 0 else 0)
          in ebind (case C_hint of Some v \<Rightarrow> Inr v
                    | None \<Rightarrow> if length y \<noteq> 0 then percentile y 10 else Inr 0) (\<lambda>C.
               ebind (initial_guesses model t y t0 C) (\<lambda>p0.
                 let b = bounds model t y
                 in ebind (func t p0) (\<lambda>y0.
                      Inr (foldl (try_start e func t y b)
                             \<lparr>params = p0, rss = PInf, y_fit = y0\<rparr>
                             (starts e p0 b n_starts))))))"

text \<open>\<open>fit_models\<close>: a model whose fit raises is recorded as \<open>None\<close>.\<close>

definition fit_models ::
  "env \<Rightarrow> real list \<Rightarrow> real list \<Rightarrow> string list \<Rightarrow> real option \<Rightarrow> real option \<Rightarrow> int
     \<Rightarrow> (string \<rightharpoonup> fit_result option)" where
  "fit_models e t y models t0_hint C_hint n_starts =
     foldl (\<lambda>out m. out(m \<mapsto>
              (case fit_model e m t y t0_hint C_hint n_starts of
                 Inl _ \<Rightarrow> None
               | Inr r \<Rightarrow> Some r)))
       Map.empty models"


text \<open>
  \<open>curve_fit\<close> with bounds starts by checking the start against them and raises
  \<open>ValueError: `x0` is infeasible\<close> when a component lies outside. \<open>feasibility_check\<close>
  is that check alone, put in the place of \<open>curve_fit\<close> to run the fitter on starts that
  are all infeasible; on a feasible start it stands for a solver that does not move.
\<close>

fun xle :: "real \<Rightarrow> xreal \<Rightarrow> bool" where
  "xle v (Fin hi) = (v \<le> hi)"
| "xle v PInf = True"

definition feasible :: "real list \<Rightarrow> real list \<times> xreal list \<Rightarrow> bool" where
  "feasible p b = list_all (\<lambda>(v, lo, hi). lo \<le> v \<and> xle v hi) (zip p (zip (fst b) (snd b)))"

definition feasibility_check ::
  "curve \<Rightarrow> real list \<Rightarrow> real list \<Rightarrow> real list \<Rightarrow> real list \<times> xreal list
     \<Rightarrow> error + real list" where
  "feasibility_check func t y p0 b = (if feasible p0 b then Inr p0 else Inl ValueError)"


section \<open>Preprocessor: \<open>core/preprocessing.py\<close>\<close>

text \<open>
  Arrays built index by index, and the elementwise operations on a stack.
\<close>

definition tab3 :: "nat \<Rightarrow> nat \<Rightarrow> nat \<Rightarrow> (nat \<Rightarrow> nat \<Rightarrow> nat \<Rightarrow> 'a) \<Rightarrow> 'a list list list" where
  "tab3 T H W g = map (\<lambda>t. map (\<lambda>i. map (\<lambda>j. g t i j) [0..<W]) [0..<H]) [0..<T]"

definition map3 :: "('a \<Rightarrow> 'b) \<Rightarrow> 'a list list list \<Rightarrow> 'b list list list" where
  "map3 f X = map (map (map f)) X"

fun map_stack :: "(real \<Rightarrow> real) \<Rightarrow> stack \<Rightarrow> stack" where
  "map_stack f (S3 X) = S3 (map3 f X)"
| "map_stack f (S4 X) = S4 (map3 (map f) X)"

fun values_of :: "stack \<Rightarrow> real list" where
  "values_of (S3 X) = concat (concat X)"
| "values_of (S4 X) = concat (concat (concat X))"

text \<open>
  \<open>to_gray\<close> of \<open>converters.py\<close> on a frame with three channels, and the loop of
  line 42 over the frames of a stack with three channels.
\<close>

definition to_gray_pixel :: "real list \<Rightarrow> real" where
  "to_gray_pixel px = 299 / 1000 * px ! 0 + 587 / 1000 * px ! 1 + 114 / 1000 * px ! 2"

definition to_gray :: "real list list list \<Rightarrow> real list list" where
  "to_gray img = map (map to_gray_pixel) img"

fun to_gray_stack :: "stack \<Rightarrow> stack" where
  "to_gray_stack (S3 X) = S3 X"
| "to_gray_stack (S4 X) = (if shape (S4 X) ! 3 = 3 then S3 (map to_gray X) else S4 X)"

text \<open>
  The filters of \<open>scipy.ndimage\<close>. A one-dimensional correlation reads its input
  through a boundary rule: \<open>reflect\<close> (the default mode, \<open>d c b a | a b c d | d c b a\<close>) or
  \<open>nearest\<close> (\<open>a a a | a b c d | d d d\<close>). \<open>weighted ws bnd get i\<close> is the output at
  position \<open>i\<close> for the weights \<open>ws\<close>, centred.
\<close>

definition reflect :: "nat \<Rightarrow> int \<Rightarrow> nat" where
  "reflect n k = (let m = k mod (2 * int n) in if m < int n then nat m else nat (2 * int n - 1 - m))"

definition nearest :: "nat \<Rightarrow> int \<Rightarrow> nat" where
  "nearest n k = nat (max 0 (min k (int n - 1)))"

definition weighted :: "real list \<Rightarrow> (int \<Rightarrow> nat) \<Rightarrow> (nat \<Rightarrow> real) \<Rightarrow> nat \<Rightarrow> real" where
  "weighted ws bnd get i =
     sum_list (map (\<lambda>k. ws ! k * get (bnd (int i + int k - int (length ws div 2))))
       [0..<length ws])"

text \<open>
  The Gaussian kernel of \<open>gaussian_filter1d\<close>: radius \<open>int(4 sigma + 0.5)\<close>, weights
  \<open>exp(-x\<^sup>2 / (2 sigma\<^sup>2))\<close> divided by their sum.
\<close>

definition gaussian_kernel1d :: "real \<Rightarrow> real list" where
  "gaussian_kernel1d sigma =
     (let lw = \<lfloor>4 * sigma + 1 / 2\<rfloor>;
          phi = map (\<lambda>x. exp (- (1 / 2) / sigma ^ 2 * (of_int x) ^ 2)) [- lw..lw]
      in map (\<lambda>p. p / sum_list phi) phi)"

text \<open>\<open>median_filter(X, size=(1, 3, 3))\<close>: rank 4 of the nine neighbours in the frame.\<close>

definition median_filter :: "real list list list \<Rightarrow> real list list list" where
  "median_filter X =
     (let T = length X; H = length (hd X); W = length (hd (hd X))
      in tab3 T H W (\<lambda>t i j.
           sort (concat (map (\<lambda>di. map (\<lambda>dj.
                   X ! t ! reflect H (int i + di) ! reflect W (int j + dj)) [- 1, 0, 1])
                 [- 1, 0, 1])) ! 4))"

text \<open>\<open>gaussian_filter(X, sigma=(0, 0.6, 0.6))\<close>: along the rows axis, then along the columns.\<close>

definition gaussian_filter :: "real list list list \<Rightarrow> real list list list" where
  "gaussian_filter X =
     (let T = length X; H = length (hd X); W = length (hd (hd X));
          ws = gaussian_kernel1d (6 / 10);
          Y = tab3 T H W (\<lambda>t i j. weighted ws (reflect H) (\<lambda>i'. X ! t ! i' ! j) i)
      in tab3 T H W (\<lambda>t i j. weighted ws (reflect W) (\<lambda>j'. Y ! t ! i ! j') j))"

text \<open>
  The spatial step (lines 56 to 59). Both filters take one size or sigma for each of
  three axes and raise on an array of four axes.
\<close>

definition spatial_filter :: "string option \<Rightarrow> stack \<Rightarrow> error + stack" where
  "spatial_filter spatial st =
     (if spatial = Some ''median'' then
        (case st of S3 X \<Rightarrow> Inr (S3 (median_filter X)) | S4 X \<Rightarrow> Inl RuntimeError)
      else if spatial = Some ''gaussian'' then
        (case st of S3 X \<Rightarrow> Inr (S3 (gaussian_filter X)) | S4 X \<Rightarrow> Inl RuntimeError)
      else Inr st)"

text \<open>
  The background step (lines 69 and 70): the median over the first \<open>N\<close> frames, at each
  position, is subtracted and the difference is clamped at zero.
\<close>

fun subtract_baseline :: "nat \<Rightarrow> stack \<Rightarrow> stack" where
  "subtract_baseline N (S3 X) =
     (let T = length X; H = length (hd X); W = length (hd (hd X))
      in S3 (tab3 T H W (\<lambda>t i j.
           max (X ! t ! i ! j - median (map (\<lambda>f. f ! i ! j) (take N X))) 0)))"
| "subtract_baseline N (S4 X) =
     (let T = length X; H = length (hd X); W = length (hd (hd X)); C = length (hd (hd (hd X)))
      in S4 (tab3 T H W (\<lambda>t i j. map (\<lambda>c.
           max (X ! t ! i ! j ! c - median (map (\<lambda>f. f ! i ! j ! c) (take N X))) 0) [0..<C])))"

text \<open>The temporal step (lines 73 to 86).\<close>

fun temporal_gaussian :: "real \<Rightarrow> stack \<Rightarrow> stack" where
  "temporal_gaussian sig (S3 X) =
     (let T = length X; H = length (hd X); W = length (hd (hd X));
          ws = gaussian_kernel1d sig
      in S3 (tab3 T H W (\<lambda>t i j. weighted ws (nearest T) (\<lambda>t'. X ! t' ! i ! j) t)))"
| "temporal_gaussian sig (S4 X) =
     (let T = length X; H = length (hd X); W = length (hd (hd X)); C = length (hd (hd (hd X)));
          ws = gaussian_kernel1d sig
      in S4 (tab3 T H W (\<lambda>t i j. map (\<lambda>c.
           weighted ws (nearest T) (\<lambda>t'. X ! t' ! i ! j ! c) t) [0..<C])))"

definition temporal_mean :: "int \<Rightarrow> real list list list \<Rightarrow> real list list list" where
  "temporal_mean t_win X =
     (let T = length X; H = length (hd X); W = length (hd (hd X));
          k0 = max 1 t_win;
          k = nat (if k0 mod 2 = 1 then k0 else k0 + 1);
          pad = k div 2;
          X_pad = replicate pad (hd X) @ X @ replicate pad (last X)
      in tab3 T H W (\<lambda>t i j.
           sum_list (map (\<lambda>f. f ! i ! j * (1 / real k)) (take k (drop t X_pad)))))"

definition temporal_filter :: "string option \<Rightarrow> int \<Rightarrow> stack \<Rightarrow> error + stack" where
  "temporal_filter temporal t_win st =
     (if temporal = Some ''gaussian'' \<and> shape st ! 0 > 1 then
        Inr (temporal_gaussian (max (1 / 2) ((of_int t_win - 1) / 2)) st)
      else if temporal = Some ''mean'' \<and> shape st ! 0 > 1 then
        (case st of S3 X \<Rightarrow> Inr (S3 (temporal_mean t_win X)) | S4 X \<Rightarrow> Inl ValueError)
      else Inr st)"

definition preprocess_ceus ::
  "stack \<Rightarrow> bool \<Rightarrow> real \<Rightarrow> real \<Rightarrow> string option \<Rightarrow> string option \<Rightarrow> int \<Rightarrow> int option
     \<Rightarrow> error + stack" where
  "preprocess_ceus st use_log p_lo p_hi spatial temporal t_win baseline_frames =
     (let X = to_gray_stack st
      in ebind (percentile (values_of X) p_lo) (\<lambda>p1.
         ebind (percentile (values_of X) p_hi) (\<lambda>p99.
           let p99 = (if p99 > p1 then p99 else p1 + 1 / 1000);
               X = map_stack (\<lambda>v. clip ((v - p1) / (p99 - p1)) 0 1) X;
               X = (if use_log then map_stack (\<lambda>v. ln (1 + 20 * v) / ln (1 + 20)) X else X)
           in ebind (spatial_filter spatial X) (\<lambda>X.
                let bf = (case baseline_frames of None \<Rightarrow> 0 | Some v \<Rightarrow> v);
                    N = (if bf \<le> 0 then 0 else min bf (max 1 (int (shape X ! 0) div 10)));
                    X = (if N > 0 then subtract_baseline (nat N) X else X)
                in temporal_filter temporal t_win X))))"



section \<open>Shapes and ranges\<close>

text \<open>
  \<open>has_dims X T H W\<close>: the nested list \<open>X\<close> is an array of shape \<open>(T, H, W)\<close>;
  \<open>unit3 X\<close>: its values lie between 0 and 1.
\<close>

definition has_dims :: "'a list list list \<Rightarrow> nat \<Rightarrow> nat \<Rightarrow> nat \<Rightarrow> bool" where
  "has_dims X T H W \<longleftrightarrow>
     length X = T \<and> (\<forall>f \<in> set X. length f = H \<and> (\<forall>r \<in> set f. length r = W))"

definition unit3 :: "real list list list \<Rightarrow> bool" where
  "unit3 X \<longleftrightarrow> (\<forall>f \<in> set X. \<forall>r \<in> set f. \<forall>v \<in> set r. 0 \<le> v \<and> v \<le> 1)"


text \<open>
  \<open>normalised T H W st\<close>: the stack has three axes, shape \<open>(T, H, W)\<close> with no empty axis,
  and values between 0 and 1.
\<close>

definition normalised :: "nat \<Rightarrow> nat \<Rightarrow> nat \<Rightarrow> stack \<Rightarrow> bool" where
  "normalised T H W st \<longleftrightarrow>
     0 < T \<and> 0 < H \<and> 0 < W \<and> (\<exists>X. st = S3 X \<and> has_dims X T H W \<and> unit3 X)"


section \<open>The least-squares routine of the smoother\<close>

text \<open>
  What the smoother needs of \<open>np.linalg.lstsq\<close>. For a square system \<open>A beta = b\<close> that
  has a solution the least-squares residual is zero, so the routine returns a solution:
  that is \<open>exact_solver\<close>. (Which solution it returns when there are several, the one of
  least norm for numpy, is not needed.)
\<close>

definition dot :: "real list \<Rightarrow> real list \<Rightarrow> real" where
  "dot u v = sum_list (map (\<lambda>(a, b). a * b) (zip u v))"

definition solves :: "real list list \<Rightarrow> real list \<Rightarrow> real list \<Rightarrow> bool" where
  "solves A b beta \<longleftrightarrow> length beta = length b \<and> map (\<lambda>row. dot row beta) A = b"

definition square :: "real list list \<Rightarrow> real list \<Rightarrow> bool" where
  "square A b \<longleftrightarrow> length A = length b \<and> (\<forall>row \<in> set A. length row = length b)"

definition exact_solver :: "solver \<Rightarrow> bool" where
  "exact_solver lstsq \<longleftrightarrow>
     (\<forall>A b. square A b \<and> (\<exists>beta. solves A b beta)
        \<longrightarrow> (\<exists>beta. lstsq A b = Inr beta \<and> solves A b beta))"

text \<open>
  A solver that meets \<open>exact_solver\<close>: elimination on the equations \<open>(coefficients, right
  side)\<close>, one unknown after the other; an unknown without a pivot is set to zero.
\<close>

fun eliminate :: "nat \<Rightarrow> (real list \<times> real) list \<Rightarrow> real list" where
  "eliminate 0 eqs = []"
| "eliminate (Suc m) eqs =
     (case find (\<lambda>(cs, r). hd cs \<noteq> 0) eqs of
        None \<Rightarrow> 0 # eliminate m (map (\<lambda>(cs, r). (tl cs, r)) eqs)
      | Some (ps, pr) \<Rightarrow>
          let xs = eliminate m (map (\<lambda>(cs, r).
                     (map (\<lambda>(c, p). c - hd cs / hd ps * p) (zip (tl cs) (tl ps)),
                      r - hd cs / hd ps * pr)) eqs)
          in (pr - dot (tl ps) xs) / hd ps # xs)"

definition elimination_solver :: solver where
  "elimination_solver A b = Inr (eliminate (length b) (zip A b))"


text \<open>\<open>sat eqs xs\<close>: the vector \<open>xs\<close> satisfies every equation of \<open>eqs\<close>.\<close>

definition sat :: "(real list \<times> real) list \<Rightarrow> real list \<Rightarrow> bool" where
  "sat eqs xs \<longleftrightarrow> (\<forall>(cs, r) \<in> set eqs. dot cs xs = r)"


section \<open>Properties of the smoother\<close>

lemma unique_first_keys: "fst ` set (unique_first ps) = fst ` set ps"
  by (induction ps rule: unique_first.induct) auto

lemma unique_first_strict:
  "sorted (map fst ps) \<Longrightarrow> sorted_wrt (<) (map fst (unique_first ps))"
proof (induction ps rule: unique_first.induct)
  case (1 p q r)
  show ?case
  proof (cases "fst p = fst q")
    case True
    with 1 show ?thesis by simp
  next
    case False
    from 1(3) have pq: "fst p < fst q" using False by simp
    from 1(3) have "\<forall>k \<in> fst ` set (q # r). fst q \<le> k" by auto
    then have "\<forall>k \<in> fst ` set (unique_first (q # r)). fst p < k"
      using pq unfolding unique_first_keys by fastforce
    moreover from 1(2)[OF False] 1(3) have "sorted_wrt (<) (map fst (unique_first (q # r)))"
      by simp
    ultimately show ?thesis using False by simp
  qed
qed simp_all

lemma sort_unique_strict: "sorted_wrt (<) (map fst (sort_unique x y))"
  unfolding sort_unique_def by (rule unique_first_strict) simp







section \<open>Properties of the event detector\<close>








section \<open>Properties of the metrics\<close>







lemma metrics_fields:
  assumes "t \<noteq> []" and "y \<noteq> []"
  shows "metrics_from_curve polyfit t y ''AUC'' = Some (metric_auc t (map (max 0) y))"
    and "metrics_from_curve polyfit t y ''MTT''
           = Some (metric_mtt t (map (max 0) y) (metric_auc t (map (max 0) y)))"
    and "metrics_from_curve polyfit t y ''Peak'' = Some (fst (metric_peak_ttp t y))"
    and "metrics_from_curve polyfit t y ''TTP'' = Some (snd (metric_peak_ttp t y))"
    and "metrics_from_curve polyfit t y ''Slope_10_90''
           = Some (metric_slope polyfit t y (fst (metric_peak_ttp t y)))"
    and "metrics_from_curve polyfit t y ''MaxDiff'' = Some (metric_maxdiff t y)"
  using assms unfolding metrics_from_curve_def Let_def by simp_all





text \<open>
  Claim C3, at the input where the code departs from it. For the curve \<open>t = [0, 1, 2]\<close>,
  \<open>y = [1, -5, 2]\<close> the value of greatest magnitude is \<open>-5\<close>, at time \<open>1\<close>, and the export
  path of the same file reports it; \<open>_metrics_from_curve\<close> reports the maximum \<open>2\<close>, at
  time \<open>2\<close>.
\<close>

theorem metrics_peak_is_maximum:
  "metrics_from_curve (\<lambda>_ _. Inl LinAlgError) [0, 1, 2] [1, - 5, 2] ''Peak'' = Some (Num 2)
   \<and> metrics_from_curve (\<lambda>_ _. Inl LinAlgError) [0, 1, 2] [1, - 5, 2] ''TTP'' = Some (Num 2)
   \<and> export_peak [1, - 5, 2] = - 5"
  by (simp add: metrics_fields metric_peak_ttp_def argmax_def item_def ebind_def export_peak_def)





section \<open>Properties of the region classifier\<close>

lemma type2_comprehension:
  "[(idx, st). (idx, dtype, flags, x0, st) \<leftarrow> rs, dtype = Some (2::int)]
     = map (\<lambda>(idx, dtype, flags, x0, st). (idx, st))
         (filter (\<lambda>(idx, dtype, flags, x0, st). dtype = Some 2) rs)"
  for rs :: "region list"
  by (induction rs) auto

lemma type1_comprehension:
  "[(idx, flags, x0, st). (idx, dtype, flags, x0, st) \<leftarrow> rs, dtype = Some (1::int)]
     = map (\<lambda>(idx, dtype, flags, x0, st). (idx, flags, x0, st))
         (filter (\<lambda>(idx, dtype, flags, x0, st). dtype = Some 1) rs)"
  for rs :: "region list"
  by (induction rs) auto

text \<open>
  Claim C7. The recording is not from the split-screen vendor (no \<open>ge\<close> in the lower-cased
  manufacturer), none of its regions is tagged as contrast (data type 2) and exactly two,
  \<open>a\<close> and \<open>b\<close>, are ambiguous (data type 1), in either order and with any other regions
  around them. If the colour variance of \<open>a\<close> is the higher one, then \<open>a\<close> becomes the CEUS
  stack and \<open>b\<close> the B-mode stack.
\<close>

theorem higher_variance_is_ceus:
  assumes "\<not> contains ''ge'' (lower (case Manufacturer ds of None \<Rightarrow> [] | Some m \<Rightarrow> m))"
    and "filter (\<lambda>(idx, dtype, flags, x0, st). dtype = Some 2) rs = []"
    and "filter (\<lambda>(idx, dtype, flags, x0, st). dtype = Some 1) rs = [a, b]
         \<or> filter (\<lambda>(idx, dtype, flags, x0, st). dtype = Some 1) rs = [b, a]"
    and "a = (ia, ta, fa, xa, sa)" and "b = (ib, tb, fb, xb, sb)"
    and "color_variance sa = Inr va" and "color_variance sb = Inr vb" and "vb < va"
    and "convert_colorspace ds sa = Inr ca" and "convert_colorspace ds sb = Inr cb"
  shows "classify_regions ds rs ld
         = Inr (ld\<lparr>bmode_region_idx := Some ib, ceus_region_idx := Some ia,
                  ceus_stack := Some ca, bmode_stack := Some cb\<rparr>)"
  using assms(3)
proof
  assume f: "filter (\<lambda>(idx, dtype, flags, x0, st). dtype = Some 1) rs = [a, b]"
  show ?thesis
    unfolding classify_regions_def type1_comprehension type2_comprehension assms(2) f
    using assms(1,4-10) by (simp add: ebind_def)
next
  assume f: "filter (\<lambda>(idx, dtype, flags, x0, st). dtype = Some 1) rs = [b, a]"
  show ?thesis
    unfolding classify_regions_def type1_comprehension type2_comprehension assms(2) f
    using assms(1,4-10) by (simp add: ebind_def)
qed


lemma color_variance_colour: "color_variance (S4 [[[[2, 0, 0], [0, 0, 0]]]]) = Inr 2"
  by (simp add: color_variance_def std_def mean_def)

lemma color_variance_grey: "color_variance (S4 [[[[7, 7, 7], [3, 3, 3]]]]) = Inr 0"
  by (simp add: color_variance_def std_def mean_def)

theorem higher_variance_is_ceus_witness:
  "classify_regions
     \<lparr>SequenceOfUltrasoundRegions = None, Manufacturer = Some ''Canon'',
      PhotometricInterpretation = Some ''RGB''\<rparr>
     [(0, Some 1, None, 0, S4 [[[[7, 7, 7], [3, 3, 3]]]]),
      (1, Some 1, None, 2, S4 [[[[2, 0, 0], [0, 0, 0]]]])] init_loader
   = Inr \<lparr>bmode_stack = Some (S4 [[[[7, 7, 7], [3, 3, 3]]]]),
          ceus_stack = Some (S4 [[[[2, 0, 0], [0, 0, 0]]]]),
          bmode_region_idx = Some 0, ceus_region_idx = Some 1\<rparr>"
  using higher_variance_is_ceus[of
      "\<lparr>SequenceOfUltrasoundRegions = None, Manufacturer = Some ''Canon'',
        PhotometricInterpretation = Some ''RGB''\<rparr>"
      "[(0, Some 1, None, 0, S4 [[[[7, 7, 7], [3, 3, 3]]]]),
        (1, Some 1, None, 2, S4 [[[[2, 0, 0], [0, 0, 0]]]])]"
      "(1, Some 1, None, 2, S4 [[[[2, 0, 0], [0, 0, 0]]]])"
      "(0, Some 1, None, 0, S4 [[[[7, 7, 7], [3, 3, 3]]]])"
      1 "Some 1" None 2 "S4 [[[[2, 0, 0], [0, 0, 0]]]]"
      0 "Some 1" None 0 "S4 [[[[7, 7, 7], [3, 3, 3]]]]"
      2 0 "S4 [[[[2, 0, 0], [0, 0, 0]]]]" "S4 [[[[7, 7, 7], [3, 3, 3]]]]" init_loader]
    color_variance_colour color_variance_grey
  by (simp add: lower_def lower_char_def convert_colorspace_def init_loader_def)

text \<open>
  Claim C4, at an input where the code departs from it. A recording whose only region
  descriptor lacks \<open>RegionLocationMinX0\<close>, or whose only descriptor has \<open>x0 = x1\<close>, has a
  descriptor list that is not empty and no usable region. \<open>_extract_regions\<close> then leaves
  the loader as \<open>__init__\<close> made it: no CEUS stack, and no exception either.
\<close>

theorem no_usable_region_gives_no_ceus:
  "extract_regions
     \<lparr>SequenceOfUltrasoundRegions = Some [\<lparr>RegionDataType = Some 1, RegionFlags = None,
        RegionLocationMinX0 = None, RegionLocationMinY0 = Some 0,
        RegionLocationMaxX1 = Some 1, RegionLocationMaxY1 = Some 1\<rparr>],
      Manufacturer = Some ''Canon'', PhotometricInterpretation = Some ''RGB''\<rparr>
     (S3 [[[1, 2], [3, 4]]]) init_loader = Inr init_loader
   \<and> extract_regions
     \<lparr>SequenceOfUltrasoundRegions = Some [\<lparr>RegionDataType = Some 1, RegionFlags = None,
        RegionLocationMinX0 = Some 1, RegionLocationMinY0 = Some 0,
        RegionLocationMaxX1 = Some 1, RegionLocationMaxY1 = Some 1\<rparr>],
      Manufacturer = Some ''Canon'', PhotometricInterpretation = Some ''RGB''\<rparr>
     (S3 [[[1, 2], [3, 4]]]) init_loader = Inr init_loader
   \<and> ceus_stack init_loader = None
   \<and> extract_regions
     \<lparr>SequenceOfUltrasoundRegions = Some [],
      Manufacturer = Some ''Canon'', PhotometricInterpretation = Some ''RGB''\<rparr>
     (S3 [[[1, 2], [3, 4]]]) init_loader
     = Inr (init_loader\<lparr>ceus_stack := Some (S3 [[[1, 2], [3, 4]]])\<rparr>)"
  by (simp add: extract_regions_def parse_region_def classify_regions_def List.map_filter_def
      enumerate_eq_zip lower_def lower_char_def init_loader_def convert_colorspace_def
      ebind_def)


section \<open>Properties of the model fitter\<close>

lemma foldl_try_start_all_fail:
  "\<forall>g \<in> set gs. isl (attempt e func t y b g) \<Longrightarrow>
   foldl (try_start e func t y b) best gs = best"
  by (induction gs arbitrary: best) (auto simp: try_start_def split: sum.splits)

lemma attempt_rss_finite: "attempt e func t y b g = Inr r \<Longrightarrow> \<exists>v. rss r = Fin v"
  by (auto simp: attempt_def ebind_def split: sum.splits option.splits prod.splits)

lemma try_start_keeps_finite:
  "rss best = Fin v \<Longrightarrow> \<exists>v'. rss (try_start e func t y b best g) = Fin v'"
  using attempt_rss_finite[of e func t y b g]
  by (auto simp: try_start_def split: sum.splits)

lemma foldl_try_start_keeps_finite:
  "rss best = Fin v \<Longrightarrow> \<exists>v'. rss (foldl (try_start e func t y b) best gs) = Fin v'"
proof (induction gs arbitrary: best v)
  case (Cons g gs)
  from try_start_keeps_finite[OF Cons.prems] obtain v' where
    "rss (try_start e func t y b best g) = Fin v'" by blast
  from Cons.IH[OF this] show ?case by simp
qed simp

lemma foldl_try_start_some_success:
  assumes "\<exists>g \<in> set gs. \<not> isl (attempt e func t y b g)" and "rss best = PInf"
  shows "\<exists>v. rss (foldl (try_start e func t y b) best gs) = Fin v"
  using assms
proof (induction gs arbitrary: best)
  case (Cons g gs)
  show ?case
  proof (cases "attempt e func t y b g")
    case (Inl err)
    with Cons.prems have "\<exists>g \<in> set gs. \<not> isl (attempt e func t y b g)" by auto
    moreover have "try_start e func t y b best g = best" using Inl by (simp add: try_start_def)
    ultimately show ?thesis using Cons.IH[of best] Cons.prems(2) by simp
  next
    case (Inr r)
    from attempt_rss_finite[OF Inr] obtain v where v: "rss r = Fin v" by blast
    then have "try_start e func t y b best g = r"
      using Inr Cons.prems(2) by (simp add: try_start_def)
    with foldl_try_start_keeps_finite[OF v] show ?thesis by simp
  qed
qed simp

lemma fit_models_lookup:
  "m \<in> set models \<Longrightarrow>
   foldl (\<lambda>out m. out(m \<mapsto> f m)) init models m = Some (f m)"
  by (induction models arbitrary: init rule: rev_induct) auto

text \<open>
  The fitter when the seeding succeeds: the model name is in the table, and the baseline
  hint \<open>C\<close>, the data-seeded guess \<open>p0\<close> and its curve \<open>y0 = func(t, p0)\<close> are
  computed without an exception. If every start fails, \<open>fit_model\<close> does not fail: it
  returns the seed \<open>p0\<close> with the curve \<open>y0\<close> and an infinite RSS, and \<open>fit_models\<close>
  records that result for the model, not \<open>None\<close>. If some start succeeds, the RSS of the
  result is finite. \<open>fit_models\<close> records \<open>None\<close> exactly when \<open>fit_model\<close> raises.
\<close>

lemma all_starts_fail_returns_seed:
  assumes "MODEL_FUNCS (gamma_fn e) model = Some func"
    and "t0 = (case t0_hint of Some v \<Rightarrow> v | None \<Rightarrow> if length t \<noteq> 0 then t ! 0 else 0)"
    and "(case C_hint of Some v \<Rightarrow> Inr v
          | None \<Rightarrow> if length y \<noteq> 0 then percentile y 10 else Inr 0) = Inr C"
    and "initial_guesses model t y t0 C = Inr p0"
    and "func t p0 = Inr y0"
    and "b = bounds model t y"
    and "model \<in> set models"
  shows "((\<forall>g \<in> set (starts e p0 b n_starts). isl (attempt e func t y b g)) \<longrightarrow>
            fit_model e model t y t0_hint C_hint n_starts
              = Inr \<lparr>params = p0, rss = PInf, y_fit = y0\<rparr>
            \<and> fit_models e t y models t0_hint C_hint n_starts model
              = Some (Some \<lparr>params = p0, rss = PInf, y_fit = y0\<rparr>))
       \<and> ((\<exists>g \<in> set (starts e p0 b n_starts). \<not> isl (attempt e func t y b g)) \<longrightarrow>
            (\<exists>r v. fit_model e model t y t0_hint C_hint n_starts = Inr r \<and> rss r = Fin v))
       \<and> (fit_models e t y models t0_hint C_hint n_starts model = Some None
            \<longleftrightarrow> isl (fit_model e model t y t0_hint C_hint n_starts))"
proof -
  have fm: "fit_model e model t y t0_hint C_hint n_starts
      = Inr (foldl (try_start e func t y b) \<lparr>params = p0, rss = PInf, y_fit = y0\<rparr>
               (starts e p0 b n_starts))"
    using assms(1-6) by (simp add: fit_model_def ebind_def Let_def)
  have look: "fit_models e t y models t0_hint C_hint n_starts model
      = Some (case fit_model e model t y t0_hint C_hint n_starts of
                Inl _ \<Rightarrow> None | Inr r \<Rightarrow> Some r)"
    unfolding fit_models_def
    by (rule fit_models_lookup[OF assms(7),
          of "\<lambda>m. case fit_model e m t y t0_hint C_hint n_starts of
                    Inl _ \<Rightarrow> None | Inr r \<Rightarrow> Some r"])
  have 1: "fit_model e model t y t0_hint C_hint n_starts
              = Inr \<lparr>params = p0, rss = PInf, y_fit = y0\<rparr>
          \<and> fit_models e t y models t0_hint C_hint n_starts model
              = Some (Some \<lparr>params = p0, rss = PInf, y_fit = y0\<rparr>)"
    if "\<forall>g \<in> set (starts e p0 b n_starts). isl (attempt e func t y b g)"
    using foldl_try_start_all_fail[OF that] fm look by simp
  have 2: "\<exists>r v. fit_model e model t y t0_hint C_hint n_starts = Inr r \<and> rss r = Fin v"
    if "\<exists>g \<in> set (starts e p0 b n_starts). \<not> isl (attempt e func t y b g)"
    using foldl_try_start_some_success[OF that, of "\<lparr>params = p0, rss = PInf, y_fit = y0\<rparr>"] fm
    by simp
  have 3: "fit_models e t y models t0_hint C_hint n_starts model = Some None
            \<longleftrightarrow> isl (fit_model e model t y t0_hint C_hint n_starts)"
    unfolding look by (simp split: sum.splits)
  from 1 2 3 show ?thesis by blast
qed


lemma seed_ldrw:
  "initial_guesses ''ldrw'' [0, 150, 300, 450, 600] [0, 3, 5, 3, 0] 0 0
     = Inr [1650, 300, 2, 0, 0]"
  by (simp add: initial_guesses_def trapz_def broadcast_def ebind_def median_def EPS_def)

lemma attempts_ldrw:
  "map (attempt \<lparr>curve_fit = Some feasibility_check, gamma_fn = Inr,
            rng = (\<lambda>_. [1 / 2, 1 / 2, 1 / 2, 1 / 2, 1 / 2])\<rparr> ldrw_func
          [0, 150, 300, 450, 600] [0, 3, 5, 3, 0]
          (bounds ''ldrw'' [0, 150, 300, 450, 600] [0, 3, 5, 3, 0]))
     (starts \<lparr>curve_fit = Some feasibility_check, gamma_fn = Inr,
            rng = (\<lambda>_. [1 / 2, 1 / 2, 1 / 2, 1 / 2, 1 / 2])\<rparr> [1650, 300, 2, 0, 0]
          (bounds ''ldrw'' [0, 150, 300, 450, 600] [0, 3, 5, 3, 0]) 3)
     = [Inl ValueError, Inl ValueError, Inl ValueError]"
proof -
  have u: "[0..<2] = [0, 1]" by code_simp
  show ?thesis
    by (simp add: starts_def jitter_def bounds_def attempt_def feasibility_check_def
        feasible_def ebind_def u)
qed

text \<open>
  Claim C1, at an input where the code departs from it. The times are
  \<open>[0, 150, 300, 450, 600]\<close>, so the seed of the LDRW model has \<open>u0 = 300\<close>, above the
  upper bound \<open>100\<close>, and every jittered start has \<open>u \<ge> 150\<close> (only \<open>t0\<close> and \<open>C\<close> are
  clamped to the bounds). Each of the three starts is infeasible and its attempt raises.
  \<open>fit_model\<close> returns the unfitted seed with its curve and an infinite RSS, and
  \<open>fit_models\<close> records it in place of \<open>None\<close>.
\<close>

theorem all_starts_infeasible_returns_seed:
  "map (attempt \<lparr>curve_fit = Some feasibility_check, gamma_fn = Inr,
            rng = (\<lambda>_. [1 / 2, 1 / 2, 1 / 2, 1 / 2, 1 / 2])\<rparr> ldrw_func
          [0, 150, 300, 450, 600] [0, 3, 5, 3, 0]
          (bounds ''ldrw'' [0, 150, 300, 450, 600] [0, 3, 5, 3, 0]))
     (starts \<lparr>curve_fit = Some feasibility_check, gamma_fn = Inr,
            rng = (\<lambda>_. [1 / 2, 1 / 2, 1 / 2, 1 / 2, 1 / 2])\<rparr> [1650, 300, 2, 0, 0]
          (bounds ''ldrw'' [0, 150, 300, 450, 600] [0, 3, 5, 3, 0]) 3)
     = [Inl ValueError, Inl ValueError, Inl ValueError]
   \<and> fit_model \<lparr>curve_fit = Some feasibility_check, gamma_fn = Inr,
         rng = (\<lambda>_. [1 / 2, 1 / 2, 1 / 2, 1 / 2, 1 / 2])\<rparr> ''ldrw''
         [0, 150, 300, 450, 600] [0, 3, 5, 3, 0] (Some 0) (Some 0) 3
     = Inr \<lparr>params = [1650, 300, 2, 0, 0], rss = PInf,
            y_fit = projr (ldrw_func [0, 150, 300, 450, 600] [1650, 300, 2, 0, 0])\<rparr>
   \<and> fit_models \<lparr>curve_fit = Some feasibility_check, gamma_fn = Inr,
         rng = (\<lambda>_. [1 / 2, 1 / 2, 1 / 2, 1 / 2, 1 / 2])\<rparr>
         [0, 150, 300, 450, 600] [0, 3, 5, 3, 0] [''lognormal'', ''gamma'', ''ldrw'', ''fpt'']
         (Some 0) (Some 0) 3 ''ldrw''
     = Some (Some \<lparr>params = [1650, 300, 2, 0, 0], rss = PInf,
                   y_fit = projr (ldrw_func [0, 150, 300, 450, 600] [1650, 300, 2, 0, 0])\<rparr>)"
proof -
  let ?t = "[0, 150, 300, 450, 600] :: real list" and ?y = "[0, 3, 5, 3, 0] :: real list"
  let ?p0 = "[1650, 300, 2, 0, 0] :: real list"
  let ?E = "\<lparr>curve_fit = Some feasibility_check, gamma_fn = Inr,
       rng = (\<lambda>_. [1 / 2, 1 / 2, 1 / 2, 1 / 2, 1 / 2])\<rparr>"
  have f: "MODEL_FUNCS Inr ''ldrw'' = Some ldrw_func" by (simp add: MODEL_FUNCS_def)
  have y0: "ldrw_func ?t ?p0 = Inr (projr (ldrw_func ?t ?p0))" by simp
  have "\<forall>r \<in> set (map (attempt ?E ldrw_func ?t ?y (bounds ''ldrw'' ?t ?y))
      (starts ?E ?p0 (bounds ''ldrw'' ?t ?y) 3)). isl r"
    unfolding attempts_ldrw by simp
  then have fail: "\<forall>g \<in> set (starts ?E ?p0 (bounds ''ldrw'' ?t ?y) 3).
      isl (attempt ?E ldrw_func ?t ?y (bounds ''ldrw'' ?t ?y) g)"
    by simp
  from all_starts_fail_returns_seed[where e = "?E" and model = "''ldrw''"
        and func = ldrw_func and ?t0.0 = 0 and t0_hint = "Some 0" and t = "?t"
        and C_hint = "Some 0" and y = "?y" and C = 0 and ?p0.0 = "?p0"
        and ?y0.0 = "projr (ldrw_func ?t ?p0)" and b = "bounds ''ldrw'' ?t ?y"
        and models = "[''lognormal'', ''gamma'', ''ldrw'', ''fpt'']" and n_starts = 3]
    f y0 seed_ldrw fail
  have "fit_model ?E ''ldrw'' ?t ?y (Some 0) (Some 0) 3
          = Inr \<lparr>params = ?p0, rss = PInf, y_fit = projr (ldrw_func ?t ?p0)\<rparr>
      \<and> fit_models ?E ?t ?y [''lognormal'', ''gamma'', ''ldrw'', ''fpt''] (Some 0) (Some 0) 3 ''ldrw''
          = Some (Some \<lparr>params = ?p0, rss = PInf, y_fit = projr (ldrw_func ?t ?p0)\<rparr>)"
    by simp
  with attempts_ldrw show ?thesis by simp
qed


section \<open>Properties of the preprocessor\<close>

lemma has_dims_tab3: "has_dims (tab3 T H W g) T H W"
  by (auto simp: has_dims_def tab3_def)

lemma unit3_tab3:
  "(\<And>t i j. t < T \<Longrightarrow> i < H \<Longrightarrow> j < W \<Longrightarrow> 0 \<le> g t i j \<and> g t i j \<le> 1) \<Longrightarrow>
   unit3 (tab3 T H W g)"
  by (auto simp: unit3_def tab3_def)

lemma has_dims_hd:
  assumes "has_dims X T H W" and "0 < T" and "0 < H"
  shows "length (hd X) = H" and "length (hd (hd X)) = W"
proof -
  from assms have "X \<noteq> []" by (auto simp: has_dims_def)
  then have m: "hd X \<in> set X" by simp
  with assms show h: "length (hd X) = H" by (auto simp: has_dims_def)
  with assms(3) have "hd X \<noteq> []" by auto
  then have "hd (hd X) \<in> set (hd X)" by simp
  with m assms(1) show "length (hd (hd X)) = W" by (auto simp: has_dims_def)
qed

lemma has_dims_nth:
  assumes "has_dims X T H W" and "t < T" and "i < H"
  shows "length (X ! t) = H" and "length (X ! t ! i) = W"
    and "X ! t \<in> set X" and "X ! t ! i \<in> set (X ! t)"
proof -
  from assms show 1: "X ! t \<in> set X" by (simp add: has_dims_def)
  with assms show 2: "length (X ! t) = H" by (auto simp: has_dims_def)
  with assms show 3: "X ! t ! i \<in> set (X ! t)" by simp
  from assms(1) 1 have "\<forall>r \<in> set (X ! t). length r = W" unfolding has_dims_def by blast
  with 3 show "length (X ! t ! i) = W" by blast
qed

lemma unit3_nth:
  assumes "has_dims X T H W" and "unit3 X" and "t < T" and "i < H" and "j < W"
  shows "0 \<le> X ! t ! i ! j \<and> X ! t ! i ! j \<le> 1"
proof -
  note d = has_dims_nth[OF assms(1,3,4)]
  from d(2) assms(5) have "X ! t ! i ! j \<in> set (X ! t ! i)" by simp
  moreover from assms(2) d(3) have "\<forall>r \<in> set (X ! t). \<forall>v \<in> set r. 0 \<le> v \<and> v \<le> 1"
    unfolding unit3_def by blast
  ultimately show ?thesis using d(4) by blast
qed

lemma has_dims_map3: "has_dims X T H W \<Longrightarrow> has_dims (map3 f X) T H W"
  by (auto simp: has_dims_def map3_def)

lemma unit3_map3_range: "(\<And>v. 0 \<le> f v \<and> f v \<le> 1) \<Longrightarrow> unit3 (map3 f X)"
  by (auto simp: unit3_def map3_def)

lemma unit3_map3:
  "unit3 X \<Longrightarrow> (\<And>v. 0 \<le> v \<Longrightarrow> v \<le> 1 \<Longrightarrow> 0 \<le> f v \<and> f v \<le> 1) \<Longrightarrow> unit3 (map3 f X)"
  by (auto simp: unit3_def map3_def)


lemma rect3_has_dims:
  "rect3 X \<Longrightarrow> has_dims X (length X) (length (hd X)) (length (hd (hd X)))"
  unfolding rect3_def has_dims_def by blast

lemma rect3_pos: "rect3 X \<Longrightarrow> 0 < length X \<and> 0 < length (hd X) \<and> 0 < length (hd (hd X))"
  unfolding rect3_def length_greater_0_conv by blast

lemma reflect_less: "0 < n \<Longrightarrow> reflect n k < n"
proof -
  assume n: "0 < n"
  define m where "m = k mod (2 * int n)"
  have "0 \<le> m" "m < 2 * int n" using n by (simp_all add: m_def)
  then show ?thesis unfolding reflect_def Let_def m_def[symmetric] using n by auto
qed

lemma nearest_less: "0 < n \<Longrightarrow> nearest n k < n"
  by (auto simp: nearest_def)

lemma sort_nth_mem: "k < length xs \<Longrightarrow> sort xs ! k \<in> set xs"
  using nth_mem[of k "sort xs"] by simp

lemma median_range:
  assumes "xs \<noteq> []" and "\<forall>v \<in> set xs. a \<le> v \<and> v \<le> b"
  shows "a \<le> median xs \<and> median xs \<le> b"
proof -
  have n: "0 < length xs" using assms(1) by simp
  have r: "a \<le> sort xs ! k \<and> sort xs ! k \<le> b" if "k < length xs" for k
    using sort_nth_mem[OF that] assms(2) by blast
  show ?thesis
  proof (cases "even (length xs)")
    case True
    then obtain m where "length xs = 2 * m" by (elim evenE)
    with n have "2 \<le> length xs" by (cases m) auto
    then have "length xs div 2 - 1 < length xs" "length xs div 2 < length xs" by auto
    from r[OF this(1)] r[OF this(2)] True show ?thesis by (simp add: median_def Let_def)
  next
    case False
    have "length xs div 2 < length xs" using n by simp
    from r[OF this] False show ?thesis by (simp add: median_def Let_def)
  qed
qed

lemma convex_range:
  fixes ws :: "real list"
  assumes "\<And>k. k < length ws \<Longrightarrow> 0 \<le> ws ! k" and "sum_list ws = 1"
    and "\<And>k. k < length ws \<Longrightarrow> 0 \<le> v k \<and> v k \<le> 1"
  shows "0 \<le> sum_list (map (\<lambda>k. ws ! k * v k) [0..<length ws])
         \<and> sum_list (map (\<lambda>k. ws ! k * v k) [0..<length ws]) \<le> 1"
proof
  show "0 \<le> sum_list (map (\<lambda>k. ws ! k * v k) [0..<length ws])"
    by (rule sum_list_nonneg) (use assms(1,3) in auto)
  have "sum_list (map (\<lambda>k. ws ! k * v k) [0..<length ws])
      \<le> sum_list (map (\<lambda>k. ws ! k) [0..<length ws])"
    by (rule sum_list_mono) (use assms(1,3) in \<open>auto intro: mult_left_le\<close>)
  also have "\<dots> = sum_list ws" by (simp add: map_nth)
  finally show "sum_list (map (\<lambda>k. ws ! k * v k) [0..<length ws]) \<le> 1"
    using assms(2) by simp
qed

lemma weighted_range:
  assumes "\<And>k. k < length ws \<Longrightarrow> 0 \<le> ws ! k" and "sum_list ws = 1"
    and "\<And>m. 0 \<le> get (bnd m) \<and> get (bnd m) \<le> 1"
  shows "0 \<le> weighted ws bnd get i \<and> weighted ws bnd get i \<le> 1"
  unfolding weighted_def
  by (rule convex_range[OF assms(1,2)]) (use assms(3) in auto)

lemma gaussian_kernel1d_convex:
  assumes "0 \<le> \<lfloor>4 * sigma + 1 / 2\<rfloor>"
  shows "\<forall>k < length (gaussian_kernel1d sigma). 0 \<le> gaussian_kernel1d sigma ! k"
    and "sum_list (gaussian_kernel1d sigma) = 1"
proof -
  define lw where "lw = \<lfloor>4 * sigma + 1 / 2\<rfloor>"
  define phi where "phi = map (\<lambda>x. exp (- (1 / 2) / sigma ^ 2 * (of_int x) ^ 2)) [- lw..lw]"
  have k: "gaussian_kernel1d sigma = map (\<lambda>p. p / sum_list phi) phi"
    by (simp add: gaussian_kernel1d_def Let_def lw_def phi_def)
  have pos: "\<forall>p \<in> set phi. 0 < p" by (auto simp: phi_def)
  have ne: "phi \<noteq> []" using assms by (simp add: phi_def lw_def)
  have "0 < sum_list phi"
    using ne pos by (induction phi) (auto intro: add_pos_nonneg sum_list_nonneg less_imp_le)
  have "sum_list (map (\<lambda>p. p / sum_list phi) phi) = sum_list phi * inverse (sum_list phi)"
    using sum_list_mult_const[of "\<lambda>p. p" "inverse (sum_list phi)" phi]
    by (simp add: divide_inverse)
  with \<open>0 < sum_list phi\<close> show "sum_list (gaussian_kernel1d sigma) = 1"
    unfolding k by simp
  show "\<forall>k < length (gaussian_kernel1d sigma). 0 \<le> gaussian_kernel1d sigma ! k"
    unfolding k using pos \<open>0 < sum_list phi\<close> by (auto intro!: divide_nonneg_nonneg less_imp_le)
qed


lemma unit3_mem:
  assumes "has_dims X T H W" and "unit3 X" and "f \<in> set X" and "i < H" and "j < W"
  shows "0 \<le> f ! i ! j \<and> f ! i ! j \<le> 1"
proof -
  from assms(1,3) have lf: "length f = H" and lr: "\<forall>r \<in> set f. length r = W"
    unfolding has_dims_def by blast+
  from lf assms(4) have r: "f ! i \<in> set f" by simp
  with lr assms(5) have "f ! i ! j \<in> set (f ! i)" by simp
  with assms(2,3) r show ?thesis unfolding unit3_def by blast
qed

lemma median_filter_ok:
  assumes "has_dims X T H W" and "0 < T" and "0 < H" and "0 < W" and "unit3 X"
  shows "has_dims (median_filter X) T H W \<and> unit3 (median_filter X)"
proof -
  note h = has_dims_hd[OF assms(1-3)]
  have len: "length X = T" using assms(1) by (simp add: has_dims_def)
  have v: "0 \<le> X ! t ! reflect H a ! reflect W b \<and> X ! t ! reflect H a ! reflect W b \<le> 1"
    if "t < T" for t a b
    by (rule unit3_nth[OF assms(1,5) that reflect_less[OF assms(3)] reflect_less[OF assms(4)]])
  have "0 \<le> sort (concat (map (\<lambda>di. map (\<lambda>dj.
            X ! t ! reflect H (int i + di) ! reflect W (int j + dj)) [- 1, 0, 1]) [- 1, 0, 1])) ! 4
      \<and> sort (concat (map (\<lambda>di. map (\<lambda>dj.
            X ! t ! reflect H (int i + di) ! reflect W (int j + dj)) [- 1, 0, 1]) [- 1, 0, 1])) ! 4
          \<le> 1"
    if "t < T" for t i j
  proof -
    let ?vs = "concat (map (\<lambda>di. map (\<lambda>dj.
            X ! t ! reflect H (int i + di) ! reflect W (int j + dj)) [- 1, 0, 1]) [- 1, 0, 1])"
    have "sort ?vs ! 4 \<in> set ?vs" by (rule sort_nth_mem) simp
    moreover have "\<forall>u \<in> set ?vs. 0 \<le> u \<and> u \<le> 1" using v[OF that] by simp
    ultimately show ?thesis by blast
  qed
  then have "unit3 (tab3 T H W (\<lambda>t i j. sort (concat (map (\<lambda>di. map (\<lambda>dj.
            X ! t ! reflect H (int i + di) ! reflect W (int j + dj)) [- 1, 0, 1]) [- 1, 0, 1])) ! 4))"
    by (intro unit3_tab3) blast
  then show ?thesis
    unfolding median_filter_def Let_def h len using has_dims_tab3 by blast
qed

lemma gaussian_filter_ok:
  assumes "has_dims X T H W" and "0 < T" and "0 < H" and "0 < W" and "unit3 X"
  shows "has_dims (gaussian_filter X) T H W \<and> unit3 (gaussian_filter X)"
proof -
  note h = has_dims_hd[OF assms(1-3)]
  have len: "length X = T" using assms(1) by (simp add: has_dims_def)
  have fl: "0 \<le> \<lfloor>4 * (6 / 10 :: real) + 1 / 2\<rfloor>" by simp
  note k = gaussian_kernel1d_convex[OF fl]
  define ws where "ws = gaussian_kernel1d (6 / 10)"
  define Y where "Y = tab3 T H W (\<lambda>t i j. weighted ws (reflect H) (\<lambda>i'. X ! t ! i' ! j) i)"
  have wk: "\<And>k. k < length ws \<Longrightarrow> 0 \<le> ws ! k" and ws1: "sum_list ws = 1"
    using k unfolding ws_def by blast+
  have dY: "has_dims Y T H W" unfolding Y_def by (rule has_dims_tab3)
  have uY: "unit3 Y"
    unfolding Y_def
  proof (rule unit3_tab3)
    fix t i j assume t: "t < T" and "i < H" and j: "j < W"
    show "0 \<le> weighted ws (reflect H) (\<lambda>i'. X ! t ! i' ! j) i
        \<and> weighted ws (reflect H) (\<lambda>i'. X ! t ! i' ! j) i \<le> 1"
      by (rule weighted_range[OF wk ws1], assumption)
         (rule unit3_nth[OF assms(1,5) t reflect_less[OF assms(3)] j])
  qed
  have "unit3 (tab3 T H W (\<lambda>t i j. weighted ws (reflect W) (\<lambda>j'. Y ! t ! i ! j') j))"
  proof (rule unit3_tab3)
    fix t i j assume t: "t < T" and i: "i < H" and "j < W"
    show "0 \<le> weighted ws (reflect W) (\<lambda>j'. Y ! t ! i ! j') j
        \<and> weighted ws (reflect W) (\<lambda>j'. Y ! t ! i ! j') j \<le> 1"
      by (rule weighted_range[OF wk ws1], assumption)
         (rule unit3_nth[OF dY uY t i reflect_less[OF assms(4)]])
  qed
  then show ?thesis
    unfolding gaussian_filter_def Let_def h len ws_def[symmetric] Y_def[symmetric]
    using has_dims_tab3 by blast
qed

lemma spatial_filter_ok:
  assumes "normalised T H W st"
  shows "\<exists>st'. spatial_filter spatial st = Inr st' \<and> normalised T H W st'"
proof -
  from assms obtain X where X: "st = S3 X" "has_dims X T H W" "unit3 X"
    and pos: "0 < T" "0 < H" "0 < W"
    unfolding normalised_def by blast
  note m = median_filter_ok[OF X(2) pos X(3)] and g = gaussian_filter_ok[OF X(2) pos X(3)]
  show ?thesis
  proof (cases "spatial = Some ''median''")
    case True
    then have "spatial_filter spatial st = Inr (S3 (median_filter X))"
      by (simp add: spatial_filter_def X(1))
    with m pos show ?thesis unfolding normalised_def by blast
  next
    case False
    show ?thesis
    proof (cases "spatial = Some ''gaussian''")
      case True
      then have "spatial_filter spatial st = Inr (S3 (gaussian_filter X))"
        using False by (simp add: spatial_filter_def X(1))
      with g pos show ?thesis unfolding normalised_def by blast
    next
      case g: False
      then have "spatial_filter spatial st = Inr st"
        using False by (simp add: spatial_filter_def)
      with assms show ?thesis by blast
    qed
  qed
qed


lemma subtract_baseline_ok:
  assumes "normalised T H W st" and "0 < N"
  shows "normalised T H W (subtract_baseline N st)"
proof -
  from assms obtain X where X: "st = S3 X" "has_dims X T H W" "unit3 X"
    and pos: "0 < T" "0 < H" "0 < W"
    unfolding normalised_def by blast
  note h = has_dims_hd[OF X(2) pos(1,2)]
  have len: "length X = T" using X(2) by (simp add: has_dims_def)
  have ne: "take N X \<noteq> []" using assms(2) pos(1) len by auto
  have "unit3 (tab3 T H W (\<lambda>t i j.
      max (X ! t ! i ! j - median (map (\<lambda>f. f ! i ! j) (take N X))) 0))"
  proof (rule unit3_tab3)
    fix t i j assume t: "t < T" and i: "i < H" and j: "j < W"
    have "\<forall>v \<in> set (map (\<lambda>f. f ! i ! j) (take N X)). 0 \<le> v \<and> v \<le> 1"
      using unit3_mem[OF X(2,3) _ i j] by (auto dest: in_set_takeD)
    with ne have "0 \<le> median (map (\<lambda>f. f ! i ! j) (take N X))"
      using median_range[of "map (\<lambda>f. f ! i ! j) (take N X)" 0 1] by simp
    with unit3_nth[OF X(2,3) t i j]
    show "0 \<le> max (X ! t ! i ! j - median (map (\<lambda>f. f ! i ! j) (take N X))) 0
        \<and> max (X ! t ! i ! j - median (map (\<lambda>f. f ! i ! j) (take N X))) 0 \<le> 1"
      by simp
  qed
  then show ?thesis
    unfolding X(1) normalised_def subtract_baseline.simps Let_def h len
    using pos has_dims_tab3 by blast
qed

lemma temporal_gaussian_ok:
  assumes "normalised T H W st" and "1 / 2 \<le> sig"
  shows "normalised T H W (temporal_gaussian sig st)"
proof -
  from assms obtain X where X: "st = S3 X" "has_dims X T H W" "unit3 X"
    and pos: "0 < T" "0 < H" "0 < W"
    unfolding normalised_def by blast
  note h = has_dims_hd[OF X(2) pos(1,2)]
  have len: "length X = T" using X(2) by (simp add: has_dims_def)
  have "0 \<le> 4 * sig + 1 / 2" using assms(2) by simp
  then have fl: "0 \<le> \<lfloor>4 * sig + 1 / 2\<rfloor>" by simp
  note k = gaussian_kernel1d_convex[OF fl]
  define ws where "ws = gaussian_kernel1d sig"
  have wk: "\<And>k. k < length ws \<Longrightarrow> 0 \<le> ws ! k" and ws1: "sum_list ws = 1"
    using k unfolding ws_def by blast+
  have "unit3 (tab3 T H W (\<lambda>t i j. weighted ws (nearest T) (\<lambda>t'. X ! t' ! i ! j) t))"
  proof (rule unit3_tab3)
    fix t i j assume "t < T" and i: "i < H" and j: "j < W"
    show "0 \<le> weighted ws (nearest T) (\<lambda>t'. X ! t' ! i ! j) t
        \<and> weighted ws (nearest T) (\<lambda>t'. X ! t' ! i ! j) t \<le> 1"
      by (rule weighted_range[OF wk ws1], assumption)
         (rule unit3_nth[OF X(2,3) nearest_less[OF pos(1)] i j])
  qed
  then show ?thesis
    unfolding X(1) normalised_def temporal_gaussian.simps Let_def h len ws_def[symmetric]
    using pos has_dims_tab3 by blast
qed

lemma sum_list_bounded:
  fixes g :: "'a \<Rightarrow> real"
  assumes "\<And>f. f \<in> set fs \<Longrightarrow> 0 \<le> g f \<and> g f \<le> c"
  shows "0 \<le> sum_list (map g fs) \<and> sum_list (map g fs) \<le> real (length fs) * c"
  using assms
proof (induction fs)
  case (Cons f fs)
  from Cons.prems[of f] have "0 \<le> g f" "g f \<le> c" by simp_all
  moreover from Cons.IH Cons.prems
  have "0 \<le> sum_list (map g fs)" "sum_list (map g fs) \<le> real (length fs) * c" by simp_all
  ultimately show ?case by (simp add: algebra_simps)
qed simp

lemma temporal_mean_ok:
  assumes "has_dims X T H W" and "0 < T" and "0 < H" and "0 < W" and "unit3 X"
  shows "has_dims (temporal_mean t_win X) T H W \<and> unit3 (temporal_mean t_win X)"
proof -
  note h = has_dims_hd[OF assms(1-3)]
  have len: "length X = T" using assms(1) by (simp add: has_dims_def)
  have ne: "X \<noteq> []" using len assms(2) by auto
  define k where "k = nat (if max 1 t_win mod 2 = 1 then max 1 t_win else max 1 t_win + 1)"
  define X_pad where "X_pad = replicate (k div 2) (hd X) @ X @ replicate (k div 2) (last X)"
  have kpos: "0 < k" unfolding k_def by auto
  have sub: "set X_pad \<subseteq> set X"
    using ne unfolding X_pad_def by (auto simp: set_replicate_conv_if)
  have "unit3 (tab3 T H W (\<lambda>t i j.
      sum_list (map (\<lambda>f. f ! i ! j * (1 / real k)) (take k (drop t X_pad)))))"
  proof (rule unit3_tab3)
    fix t i j assume "t < T" and i: "i < H" and j: "j < W"
    let ?fs = "take k (drop t X_pad)"
    have "\<And>f. f \<in> set ?fs \<Longrightarrow> 0 \<le> f ! i ! j * (1 / real k) \<and> f ! i ! j * (1 / real k) \<le> 1 / real k"
    proof -
      fix f assume "f \<in> set ?fs"
      then have "f \<in> set X" using sub by (auto dest!: in_set_takeD in_set_dropD)
      from unit3_mem[OF assms(1,5) this i j] kpos
      show "0 \<le> f ! i ! j * (1 / real k) \<and> f ! i ! j * (1 / real k) \<le> 1 / real k"
        by (simp add: divide_right_mono)
    qed
    from sum_list_bounded[of ?fs "\<lambda>f. f ! i ! j * (1 / real k)" "1 / real k", OF this]
    have b: "0 \<le> sum_list (map (\<lambda>f. f ! i ! j * (1 / real k)) ?fs)"
      "sum_list (map (\<lambda>f. f ! i ! j * (1 / real k)) ?fs) \<le> real (length ?fs) * (1 / real k)"
      by simp_all
    have "real (length ?fs) * (1 / real k) \<le> real k * (1 / real k)"
      by (rule mult_right_mono) simp_all
    also have "\<dots> = 1" using kpos by simp
    finally show "0 \<le> sum_list (map (\<lambda>f. f ! i ! j * (1 / real k)) ?fs)
        \<and> sum_list (map (\<lambda>f. f ! i ! j * (1 / real k)) ?fs) \<le> 1"
      using b by simp
  qed
  then show ?thesis
    unfolding temporal_mean_def Let_def h len k_def[symmetric] X_pad_def[symmetric]
    using has_dims_tab3 by blast
qed

lemma temporal_filter_ok:
  assumes "normalised T H W st"
  shows "\<exists>st'. temporal_filter temporal t_win st = Inr st' \<and> normalised T H W st'"
proof -
  from assms obtain X where X: "st = S3 X" "has_dims X T H W" "unit3 X"
    and pos: "0 < T" "0 < H" "0 < W"
    unfolding normalised_def by blast
  have sig: "1 / 2 \<le> max (1 / 2) ((of_int t_win - 1) / 2 :: real)" by simp
  note g = temporal_gaussian_ok[OF assms sig]
  note m = temporal_mean_ok[OF X(2) pos X(3), of t_win]
  consider (g) "temporal = Some ''gaussian'' \<and> shape st ! 0 > 1"
    | (m) "\<not> (temporal = Some ''gaussian'' \<and> shape st ! 0 > 1)"
          "temporal = Some ''mean'' \<and> shape st ! 0 > 1"
    | (n) "\<not> (temporal = Some ''gaussian'' \<and> shape st ! 0 > 1)"
          "\<not> (temporal = Some ''mean'' \<and> shape st ! 0 > 1)"
    by blast
  then show ?thesis
  proof cases
    case g
    then have "temporal_filter temporal t_win st
        = Inr (temporal_gaussian (max (1 / 2) ((of_int t_win - 1) / 2)) st)"
      by (simp add: temporal_filter_def)
    with \<open>normalised T H W (temporal_gaussian (max (1 / 2) ((of_int t_win - 1) / 2)) st)\<close>
    show ?thesis by blast
  next
    case m
    then have "temporal_filter temporal t_win st = Inr (S3 (temporal_mean t_win X))"
      by (simp add: temporal_filter_def X(1))
    with m pos \<open>has_dims (temporal_mean t_win X) T H W \<and> unit3 (temporal_mean t_win X)\<close>
    show ?thesis unfolding normalised_def by blast
  next
    case n
    then have "temporal_filter temporal t_win st = Inr st"
      unfolding temporal_filter_def by auto
    with assms show ?thesis by blast
  qed
qed


lemma to_gray_stack_dims:
  assumes "valid_stack st" and "case st of S3 X \<Rightarrow> True | S4 X \<Rightarrow> shape st ! 3 = 3"
  shows "\<exists>G. to_gray_stack st = S3 G \<and> has_dims G (shape st ! 0) (shape st ! 1) (shape st ! 2)
           \<and> 0 < shape st ! 0 \<and> 0 < shape st ! 1 \<and> 0 < shape st ! 2"
proof (cases st)
  case (S3 X)
  with assms(1) have "rect3 X" by simp
  from rect3_has_dims[OF this] rect3_pos[OF this] S3 show ?thesis by simp
next
  case (S4 X)
  with assms(1) have "rect3 X" by simp
  moreover have "map to_gray X = map3 to_gray_pixel X"
    by (simp add: map3_def to_gray_def)
  ultimately show ?thesis
    using has_dims_map3[OF rect3_has_dims[OF \<open>rect3 X\<close>], of to_gray_pixel]
      rect3_pos[OF \<open>rect3 X\<close>] S4 assms(2)
    by simp
qed

lemma log_compress_range:
  assumes "0 \<le> v" and "v \<le> 1"
  shows "0 \<le> ln (1 + 20 * v) / ln (1 + 20) \<and> ln (1 + 20 * v) / ln (1 + 20) \<le> (1::real)"
proof -
  have "0 \<le> ln (1 + 20 * v)" using assms by simp
  moreover have "ln (1 + 20 * v) \<le> ln (1 + 20)" using assms by simp
  moreover have "0 < ln (1 + 20 :: real)" by simp
  ultimately show ?thesis by simp
qed

lemma preprocess_ok:
  assumes "valid_stack st" and "case st of S3 X \<Rightarrow> True | S4 X \<Rightarrow> shape st ! 3 = 3"
    and "0 \<le> p_lo" and "p_lo \<le> 100" and "0 \<le> p_hi" and "p_hi \<le> 100"
  shows "\<exists>Y. preprocess_ceus st use_log p_lo p_hi spatial temporal t_win baseline_frames = Inr Y
           \<and> normalised (shape st ! 0) (shape st ! 1) (shape st ! 2) Y"
proof -
  define T H W where "T = shape st ! 0" and "H = shape st ! 1" and "W = shape st ! 2"
  from to_gray_stack_dims[OF assms(1,2)] obtain G where
    G: "to_gray_stack st = S3 G" "has_dims G T H W" and pos: "0 < T" "0 < H" "0 < W"
    unfolding T_def H_def W_def by blast
  obtain p1 p99' where p: "percentile (values_of (S3 G)) p_lo = Inr p1"
      "percentile (values_of (S3 G)) p_hi = Inr p99'"
    using assms(3-6) by (simp add: percentile_def Let_def)
  define p99 where "p99 = (if p99' > p1 then p99' else p1 + 1 / 1000)"
  define X1 where "X1 = map_stack (\<lambda>v. clip ((v - p1) / (p99 - p1)) 0 1) (S3 G)"
  define X2 where
    "X2 = (if use_log then map_stack (\<lambda>v. ln (1 + 20 * v) / ln (1 + 20)) X1 else X1)"
  have n1: "normalised T H W X1"
    unfolding X1_def normalised_def map_stack.simps
    using pos has_dims_map3[OF G(2)]
      unit3_map3_range[of "\<lambda>v. clip ((v - p1) / (p99 - p1)) 0 1" G]
    by (simp add: clip_def)
  then obtain Y1 where Y1: "X1 = S3 Y1" "has_dims Y1 T H W" "unit3 Y1"
    unfolding normalised_def by blast
  have n2: "normalised T H W X2"
  proof (cases use_log)
    case True
    have "unit3 (map3 (\<lambda>v. ln (1 + 20 * v) / ln (1 + 20)) Y1)"
      by (rule unit3_map3[OF Y1(3)]) (rule log_compress_range)
    with has_dims_map3[OF Y1(2)] pos True show ?thesis
      unfolding X2_def Y1(1) normalised_def by simp
  next
    case False
    with n1 show ?thesis unfolding X2_def by simp
  qed
  from spatial_filter_ok[OF n2] obtain X3 where
    X3: "spatial_filter spatial X2 = Inr X3" "normalised T H W X3" by blast
  define bf where "bf = (case baseline_frames of None \<Rightarrow> 0 | Some v \<Rightarrow> v)"
  define N where "N = (if bf \<le> 0 then 0 else min bf (max 1 (int (shape X3 ! 0) div 10)))"
  define X4 where "X4 = (if N > 0 then subtract_baseline (nat N) X3 else X3)"
  have n4: "normalised T H W X4"
    unfolding X4_def using subtract_baseline_ok[OF X3(2), of "nat N"] X3(2) by simp
  from temporal_filter_ok[OF n4] obtain X5 where
    X5: "temporal_filter temporal t_win X4 = Inr X5" "normalised T H W X5" by blast
  have "preprocess_ceus st use_log p_lo p_hi spatial temporal t_win baseline_frames = Inr X5"
    unfolding preprocess_ceus_def Let_def G(1) p ebind_def sum.case
      p99_def[symmetric] X1_def[symmetric] X2_def[symmetric] X3(1)
      bf_def[symmetric] N_def[symmetric] X4_def[symmetric] X5(1) ..
  with X5(2) show ?thesis unfolding T_def H_def W_def by blast
qed

lemma normalised_shape: "normalised T H W Y \<Longrightarrow> shape Y = [T, H, W]"
proof -
  assume "normalised T H W Y"
  then obtain X where X: "Y = S3 X" "has_dims X T H W" "0 < T" "0 < H"
    unfolding normalised_def by blast
  from has_dims_hd[OF X(2-4)] X(1,2) show ?thesis by (simp add: has_dims_def)
qed

text \<open>
  Claim C5, as amended. For a valid input stack, of shape \<open>(T, H, W)\<close> or \<open>(T, H, W, 3)\<close>
  with no empty axis, and percentile bounds in \<open>[0, 100]\<close>, the preprocessor returns a
  stack of shape \<open>(T, H, W)\<close>: the first three axes of the input. The shape of a
  single-channel input is kept; the channel axis of a colour input is not.
\<close>

theorem preprocess_shape:
  assumes "valid_stack st" and "case st of S3 X \<Rightarrow> True | S4 X \<Rightarrow> shape st ! 3 = 3"
    and "0 \<le> p_lo" and "p_lo \<le> 100" and "0 \<le> p_hi" and "p_hi \<le> 100"
  shows "\<exists>Y. preprocess_ceus st use_log p_lo p_hi spatial temporal t_win baseline_frames = Inr Y
           \<and> shape Y = take 3 (shape st)"
proof -
  from preprocess_ok[OF assms] obtain Y where
    Y: "preprocess_ceus st use_log p_lo p_hi spatial temporal t_win baseline_frames = Inr Y"
       "normalised (shape st ! 0) (shape st ! 1) (shape st ! 2) Y" by blast
  have "take 3 (shape st) = [shape st ! 0, shape st ! 1, shape st ! 2]"
    by (cases st) (simp_all add: numeral_3_eq_3)
  with normalised_shape[OF Y(2)] Y(1) show ?thesis by simp
qed



theorem preprocess_shape_witness:
  "\<exists>Y. preprocess_ceus (S4 [[[[10, 20, 30], [40, 50, 60]]], [[[1, 2, 3], [4, 5, 6]]]])
          True 1 99 (Some ''median'') (Some ''gaussian'') 3 (Some 5) = Inr Y
       \<and> shape Y = [2, 1, 2]"
  using preprocess_shape[of "S4 [[[[10, 20, 30], [40, 50, 60]]], [[[1, 2, 3], [4, 5, 6]]]]"
      1 99 True "Some ''median''" "Some ''gaussian''" 3 "Some 5"]
  by (simp add: rect3_def numeral_2_eq_2)

theorem preprocess_shape_counterexample:
  "preprocess_ceus (S4 [[[[10, 20, 30], [40, 50, 60]]]]) False 0 100 None None 3 None
     = Inr (S3 [[[0, 1]]])
   \<and> shape (S4 [[[[10, 20, 30], [40, 50, 60]]]]) = [1, 1, 2, 3]
   \<and> shape (S3 [[[0, 1]]]) = [1, 1, 2]"
  by (simp add: preprocess_ceus_def percentile_def ebind_def map3_def clip_def
      spatial_filter_def temporal_filter_def to_gray_def to_gray_pixel_def)



section \<open>Properties of the elimination solver\<close>

lemma dot_Cons: "dot (a # u) (b # v) = a * b + dot u v"
  by (simp add: dot_def)

lemma dot_Nil: "dot [] v = 0" "dot u [] = 0"
  by (simp_all add: dot_def)

lemma dot_hd_tl: "cs \<noteq> [] \<Longrightarrow> dot cs (x # xs) = hd cs * x + dot (tl cs) xs"
  by (cases cs) (simp_all add: dot_Cons)

lemma dot_eliminated:
  "length u = length v \<Longrightarrow>
   dot (map (\<lambda>(c, p). c - f * p) (zip u v)) ys = dot u ys - f * dot v ys"
proof (induction u v arbitrary: ys rule: list_induct2)
  case Nil
  show ?case by (simp add: dot_Nil)
next
  case (Cons a u b v)
  show ?case
  proof (cases ys)
    case Nil
    then show ?thesis by (simp add: dot_Nil)
  next
    case (Cons y ys')
    with Cons.IH[of ys'] show ?thesis by (simp add: dot_Cons algebra_simps)
  qed
qed

lemma find_SomeD: "find P xs = Some x \<Longrightarrow> x \<in> set xs \<and> P x"
  by (induction xs) (auto split: if_splits)

lemma pivot_back:
  fixes p :: real
  assumes "p \<noteq> 0" and "D1 - h / p * D2 = r - h / p * pr"
  shows "h * ((pr - D2) / p) + D1 = r"
proof -
  from assms(2) have "D1 = r - h / p * pr + h / p * D2" by simp
  then show ?thesis by (simp add: algebra_simps diff_divide_distrib)
qed

lemma eliminate_length: "length (eliminate m eqs) = m"
  by (induction m eqs rule: eliminate.induct) (auto simp: Let_def split: option.splits)

lemma eliminate_sat:
  assumes "\<forall>(cs, r) \<in> set eqs. length cs = m" and "length xs = m" and "sat eqs xs"
  shows "sat eqs (eliminate m eqs)"
  using assms
proof (induction m arbitrary: eqs xs)
  case 0
  then show ?case by (auto simp: sat_def)
next
  case (Suc m)
  from Suc.prems(2) obtain x xs' where xs: "xs = x # xs'" "length xs' = m"
    by (cases xs) auto
  have lenS: "length cs = Suc m" if "(cs, r) \<in> set eqs" for cs r
    using Suc.prems(1) that by auto
  have ne: "cs \<noteq> []" if "(cs, r) \<in> set eqs" for cs r
    using lenS[OF that] by auto
  have orig: "hd cs * x + dot (tl cs) xs' = r" if "(cs, r) \<in> set eqs" for cs r
    using Suc.prems(3) that dot_hd_tl[OF ne[OF that]] unfolding sat_def xs by fastforce
  show ?case
  proof (cases "find (\<lambda>(cs, r). hd cs \<noteq> 0) eqs")
    case None
    then have z: "hd cs = 0" if "(cs, r) \<in> set eqs" for cs r
      using that by (auto simp: find_None_iff)
    let ?red = "map (\<lambda>(cs, r). (tl cs, r)) eqs"
    have len: "\<forall>(cs, r) \<in> set ?red. length cs = m" using lenS by auto
    have "sat ?red xs'" unfolding sat_def using orig z by auto
    from Suc.IH[OF len xs(2) this] have ih: "sat ?red (eliminate m ?red)" .
    have "dot cs (0 # eliminate m ?red) = r" if "(cs, r) \<in> set eqs" for cs r
    proof -
      from that have "(tl cs, r) \<in> set ?red" by force
      with ih have "dot (tl cs) (eliminate m ?red) = r" unfolding sat_def by fastforce
      with dot_hd_tl[OF ne[OF that]] z[OF that] show ?thesis by simp
    qed
    then show ?thesis using None unfolding sat_def by auto
  next
    case (Some piv)
    obtain ps pr where piv: "piv = (ps, pr)" by (cases piv)
    from find_SomeD[OF Some] piv have pin: "(ps, pr) \<in> set eqs" and pnz: "hd ps \<noteq> 0"
      by auto
    let ?red = "map (\<lambda>(cs, r).
        (map (\<lambda>(c, p). c - hd cs / hd ps * p) (zip (tl cs) (tl ps)),
         r - hd cs / hd ps * pr)) eqs"
    let ?ys = "eliminate m ?red"
    have lt: "length (tl cs) = length (tl ps)" if "(cs, r) \<in> set eqs" for cs r
      using lenS[OF that] lenS[OF pin] by simp
    have len: "\<forall>(cs, r) \<in> set ?red. length cs = m" using lenS lenS[OF pin] by auto
    have "sat ?red xs'"
      unfolding sat_def
    proof (clarsimp)
      fix cs r assume m: "(cs, r) \<in> set eqs"
      have "dot (map (\<lambda>(c, p). c - hd cs / hd ps * p) (zip (tl cs) (tl ps))) xs'
          = dot (tl cs) xs' - hd cs / hd ps * dot (tl ps) xs'"
        by (rule dot_eliminated[OF lt[OF m]])
      also have "\<dots> = (r - hd cs * x) - hd cs / hd ps * (pr - hd ps * x)"
      proof -
        have "dot (tl cs) xs' = r - hd cs * x" using orig[OF m] by simp
        moreover have "dot (tl ps) xs' = pr - hd ps * x" using orig[OF pin] by simp
        ultimately show ?thesis by simp
      qed
      also have "\<dots> = r - hd cs / hd ps * pr"
        using pnz by (simp add: field_simps)
      finally show "dot (map (\<lambda>(c, p). c - hd cs * p / hd ps) (zip (tl cs) (tl ps))) xs'
          = r - hd cs * pr / hd ps" by simp
    qed
    from Suc.IH[OF len xs(2) this] have ih: "sat ?red ?ys" .
    have "dot cs ((pr - dot (tl ps) ?ys) / hd ps # ?ys) = r" if "(cs, r) \<in> set eqs" for cs r
    proof -
      from that have "(map (\<lambda>(c, p). c - hd cs / hd ps * p) (zip (tl cs) (tl ps)),
          r - hd cs / hd ps * pr) \<in> set ?red" by force
      with ih have "dot (map (\<lambda>(c, p). c - hd cs / hd ps * p) (zip (tl cs) (tl ps))) ?ys
          = r - hd cs / hd ps * pr" unfolding sat_def by fastforce
      with dot_eliminated[OF lt[OF that], of "hd cs / hd ps" ?ys]
      have "dot (tl cs) ?ys - hd cs / hd ps * dot (tl ps) ?ys = r - hd cs / hd ps * pr"
        by simp
      from pivot_back[OF pnz this] show ?thesis
        unfolding dot_hd_tl[OF ne[OF that]] .
    qed
    then show ?thesis using Some piv unfolding sat_def by (auto simp: Let_def)
  qed
qed

lemma elimination_solver_exact: "exact_solver elimination_solver"
  unfolding exact_solver_def
proof (intro allI impI, elim conjE exE)
  fix A b beta assume sq: "square A b" and s: "solves A b beta"
  have len: "\<forall>(cs, r) \<in> set (zip A b). length cs = length b"
    using sq by (auto simp: square_def dest: set_zip_leftD)
  have lA: "length A = length b" using sq by (simp add: square_def)
  have sat_iff: "sat (zip A b) xs \<longleftrightarrow> map (\<lambda>row. dot row xs) A = b" for xs
  proof
    assume a: "sat (zip A b) xs"
    show "map (\<lambda>row. dot row xs) A = b"
    proof (rule nth_equalityI)
      show "length (map (\<lambda>row. dot row xs) A) = length b" using lA by simp
      fix i assume "i < length (map (\<lambda>row. dot row xs) A)"
      then have i: "i < length A" by simp
      then have "(A ! i, b ! i) \<in> set (zip A b)" using lA by (auto simp: set_zip)
      with a have "dot (A ! i) xs = b ! i" unfolding sat_def by fastforce
      with i show "map (\<lambda>row. dot row xs) A ! i = b ! i" by simp
    qed
  next
    assume a: "map (\<lambda>row. dot row xs) A = b"
    show "sat (zip A b) xs"
      unfolding sat_def
    proof (clarsimp simp: set_zip)
      fix i assume "i < length A" "i < length b"
      then show "dot (A ! i) xs = b ! i" using a by (metis nth_map)
    qed
  qed
  from s have "length beta = length b" "sat (zip A b) beta"
    unfolding solves_def sat_iff by simp_all
  from eliminate_sat[OF len this] have "sat (zip A b) (eliminate (length b) (zip A b))" .
  then have "solves A b (eliminate (length b) (zip A b))"
    unfolding solves_def sat_iff by (simp add: eliminate_length)
  then show "\<exists>beta. elimination_solver A b = Inr beta \<and> solves A b beta"
    by (simp add: elimination_solver_def)
qed


section \<open>The smoother on constant and linear data\<close>

lemma wdot_map:
  "wdot (map f l) (map w l) (map g l) = sum_list (map (\<lambda>s. f s * w s * g s) l)"
  by (induction l) (simp_all add: wdot_def)

lemma weighted_sum_linear:
  fixes Y :: "'a \<Rightarrow> real"
  assumes "\<forall>s \<in> set l. Y s = p + q * Z s"
  shows "sum_list (map (\<lambda>s. f s * w s * Y s) l)
         = sum_list (map (\<lambda>s. f s * w s * 1) l) * p + sum_list (map (\<lambda>s. f s * w s * Z s) l) * q"
  using assms by (induction l) (simp_all add: algebra_simps)

lemma quadratic_form:
  fixes w :: "'a \<Rightarrow> real"
  shows "d0 * (sum_list (map (\<lambda>s. f0 s * w s * f0 s) l) * d0
             + sum_list (map (\<lambda>s. f0 s * w s * f1 s) l) * d1
             + sum_list (map (\<lambda>s. f0 s * w s * f2 s) l) * d2)
       + d1 * (sum_list (map (\<lambda>s. f1 s * w s * f0 s) l) * d0
             + sum_list (map (\<lambda>s. f1 s * w s * f1 s) l) * d1
             + sum_list (map (\<lambda>s. f1 s * w s * f2 s) l) * d2)
       + d2 * (sum_list (map (\<lambda>s. f2 s * w s * f0 s) l) * d0
             + sum_list (map (\<lambda>s. f2 s * w s * f1 s) l) * d1
             + sum_list (map (\<lambda>s. f2 s * w s * f2 s) l) * d2)
       = sum_list (map (\<lambda>s. w s * (d0 * f0 s + d1 * f1 s + d2 * f2 s) ^ 2) l)"
  by (induction l) (simp_all add: algebra_simps power2_eq_square)

lemma intercept_determined:
  fixes w :: "'a \<Rightarrow> real"
  assumes pos: "\<forall>s \<in> set l. 0 < w s" and s0: "s0 \<in> set l" "Z s0 = 0"
    and e0: "sum_list (map (\<lambda>s. 1 * w s * 1) l) * d0
             + sum_list (map (\<lambda>s. 1 * w s * Z s) l) * d1
             + sum_list (map (\<lambda>s. 1 * w s * (Z s) ^ 2) l) * d2 = 0"
    and e1: "sum_list (map (\<lambda>s. Z s * w s * 1) l) * d0
             + sum_list (map (\<lambda>s. Z s * w s * Z s) l) * d1
             + sum_list (map (\<lambda>s. Z s * w s * (Z s) ^ 2) l) * d2 = 0"
    and e2: "d2 = 0 \<or> sum_list (map (\<lambda>s. (Z s) ^ 2 * w s * 1) l) * d0
             + sum_list (map (\<lambda>s. (Z s) ^ 2 * w s * Z s) l) * d1
             + sum_list (map (\<lambda>s. (Z s) ^ 2 * w s * (Z s) ^ 2) l) * d2 = 0"
  shows "d0 = 0"
proof -
  have "sum_list (map (\<lambda>s. w s * (d0 * 1 + d1 * Z s + d2 * (Z s) ^ 2) ^ 2) l) = 0"
    unfolding quadratic_form[where ?d0.0 = d0 and ?f0.0 = "\<lambda>_. 1" and w = w and l = l
        and ?d1.0 = d1 and ?f1.0 = Z and ?d2.0 = d2 and ?f2.0 = "\<lambda>s. (Z s) ^ 2", symmetric]
    using e0 e1 e2 by auto
  moreover have "\<And>x. x \<in> set (map (\<lambda>s. w s * (d0 * 1 + d1 * Z s + d2 * (Z s) ^ 2) ^ 2) l)
      \<Longrightarrow> 0 \<le> x"
  proof -
    fix x assume "x \<in> set (map (\<lambda>s. w s * (d0 * 1 + d1 * Z s + d2 * (Z s) ^ 2) ^ 2) l)"
    then obtain s where "s \<in> set l" "x = w s * (d0 * 1 + d1 * Z s + d2 * (Z s) ^ 2) ^ 2"
      by auto
    with pos show "0 \<le> x" by (simp add: less_imp_le)
  qed
  ultimately have "\<forall>x \<in> set (map (\<lambda>s. w s * (d0 * 1 + d1 * Z s + d2 * (Z s) ^ 2) ^ 2) l). x = 0"
    using sum_list_nonneg_eq_0_iff by blast
  with s0(1) have "w s0 * (d0 * 1 + d1 * Z s0 + d2 * (Z s0) ^ 2) ^ 2 = 0" by simp
  with pos s0 show ?thesis by auto
qed

lemma neighbourhood_k_pos: "1 \<le> neighbourhood_k spn degree n"
  by (simp add: neighbourhood_k_def Let_def)

lemma bandwidth_pos:
  assumes "1 \<le> k"
  shows "0 < bandwidth k d"
proof (cases "filter (\<lambda>v. v > 0) d = []")
  case True
  then show ?thesis by (simp add: bandwidth_def)
next
  case False
  define dn where "dn = filter (\<lambda>v. v > 0) d"
  have n: "0 < length dn" using False by (simp add: dn_def)
  have "neighbourhood_size k d - 1 < int (length dn)" "0 < int (length dn)"
    using assms n unfolding neighbourhood_size_def dn_def[symmetric] by linarith+
  then have "nat (neighbourhood_size k d - 1) < length dn" by linarith
  from sort_nth_mem[OF this] have "0 < sort dn ! nat (neighbourhood_size k d - 1)"
    unfolding dn_def by simp
  then show ?thesis
    using False unfolding bandwidth_def Let_def dn_def[symmetric] by simp
qed

lemma tricube_zero: "tricube 0 = 1"
  by (simp add: tricube_def)

lemma collect_map_Inr: "(\<forall>v \<in> set xs. f v = Inr (g v)) \<Longrightarrow> collect (map f xs) = Inr (map g xs)"
  by (induction xs) simp_all

lemma interp_at_knot:
  assumes "sorted_wrt (<) (map fst pts)" and "(v, fv) \<in> set pts"
  shows "interp v pts = Inr fv"
  using assms
proof (induction v pts rule: interp.induct)
  case (1 v)
  then show ?case by simp
next
  case (2 v a fa)
  then show ?case by simp
next
  case (3 v a fa b fb r)
  show ?case
  proof (cases "(v, fv) = (a, fa)")
    case True
    then show ?thesis by simp
  next
    case False
    with 3(3) have m: "(v, fv) \<in> set ((b, fb) # r)" by auto
    then have "v \<in> set (map fst ((b, fb) # r))" by force
    with 3(2) have av: "a < v" and bv: "b \<le> v" by auto
    from 3(2) have "sorted_wrt (<) (map fst ((b, fb) # r))" by simp
    from 3(1)[OF _ _ this m] av bv show ?thesis by simp
  qed
qed


lemma fit_at_linear:
  assumes H: "exact_solver lstsq"
    and lin: "\<forall>p \<in> set pts. snd p = a * fst p + c"
    and mem: "xi \<in> fst ` set pts"
    and k: "1 \<le> k"
  shows "fit_at lstsq degree k pts xi = Inr (a * xi + c)"
proof -
  define dk where "dk = bandwidth k (distances pts xi)"
  have dk: "0 < dk" unfolding dk_def by (rule bandwidth_pos[OF k])
  define wt where "wt = (\<lambda>p :: real \<times> real. tricube (\<bar>fst p - xi\<bar> / dk))"
  define sel where "sel = filter (\<lambda>(p, w). w > 0) (map (\<lambda>p. (p, wt p)) pts)"
  define Z where "Z = (\<lambda>s :: (real \<times> real) \<times> real. (fst (fst s) - xi) / dk)"
  define Y where "Y = (\<lambda>s :: (real \<times> real) \<times> real. snd (fst s))"
  define p q where "p = a * xi + c" and "q = a * dk"
  have zipw: "zip pts (map (\<lambda>v. tricube (v / dk)) (distances pts xi)) = map (\<lambda>p. (p, wt p)) pts"
    by (induction pts) (simp_all add: distances_def wt_def)
  have sel_pos: "\<forall>s \<in> set sel. 0 < snd s" unfolding sel_def by auto
  have sel_lin: "\<forall>s \<in> set sel. Y s = p + q * Z s"
  proof
    fix s assume "s \<in> set sel"
    then have "fst s \<in> set pts" unfolding sel_def by auto
    with lin have "snd (fst s) = a * fst (fst s) + c" by blast
    moreover have "a * dk * ((fst (fst s) - xi) / dk) = a * (fst (fst s) - xi)"
      using dk by simp
    ultimately show "Y s = p + q * Z s"
      unfolding Y_def Z_def p_def q_def by (simp add: algebra_simps)
  qed
  obtain s0 where s0: "s0 \<in> set sel" "Z s0 = 0"
  proof -
    from mem obtain pt where pt: "pt \<in> set pts" "fst pt = xi" by auto
    then have "wt pt = 1" by (simp add: wt_def tricube_zero)
    with pt have "(pt, wt pt) \<in> set sel" unfolding sel_def by auto
    moreover have "Z (pt, wt pt) = 0" using pt by (simp add: Z_def)
    ultimately show ?thesis using that by blast
  qed
  have xs: "map (\<lambda>v. (v - xi) / dk) (map (\<lambda>(p, w). fst p) sel) = map Z sel"
    by (simp add: Z_def case_prod_unfold)
  have ys: "map (\<lambda>(p, w). snd p) sel = map Y sel" by (simp add: Y_def case_prod_unfold)
  have ws: "map (\<lambda>(p, w). w) sel = map snd sel" by (simp add: case_prod_unfold)
  define A where "A = normal_matrix (design_columns degree (map Z sel)) (map snd sel)"
  define b where "b = normal_rhs (design_columns degree (map Z sel)) (map snd sel) (map Y sel)"
  have fit: "fit_at lstsq degree k pts xi
      = (case lstsq A b of Inr (b0 # _) \<Rightarrow> Inr b0 | _ \<Rightarrow> average (map Y sel) (map snd sel))"
    unfolding fit_at_def Let_def dk_def[symmetric] zipw sel_def[symmetric] xs ys ws
      A_def b_def ..
  define S where "S = (\<lambda>f g. sum_list (map (\<lambda>s. f s * snd s * g s) sel))"
  define f0 f2 where "f0 = (\<lambda>s :: (real \<times> real) \<times> real. 1 :: real)" and "f2 = (\<lambda>s. (Z s) ^ 2)"
  have SY: "S f Y = S f f0 * p + S f Z * q" for f
    unfolding S_def f0_def by (rule weighted_sum_linear[OF sel_lin])
  have wd: "wdot (map f sel) (map snd sel) (map g sel) = S f g" for f g
    unfolding S_def by (rule wdot_map)
  have f0s: "f0 s0 = 1" and f2s: "f2 s0 = 0" using s0(2) by (simp_all add: f0_def f2_def)
  have key: "d0 = 0"
    if "S f0 f0 * d0 + S f0 Z * d1 + S f0 f2 * d2 = 0"
      and "S Z f0 * d0 + S Z Z * d1 + S Z f2 * d2 = 0"
      and "d2 = 0 \<or> S f2 f0 * d0 + S f2 Z * d1 + S f2 f2 * d2 = 0" for d0 d1 d2
    by (rule intercept_determined[of sel snd s0 Z d0 d1 d2, OF sel_pos s0])
       (use that in \<open>simp_all add: S_def f0_def f2_def\<close>)
  show ?thesis
  proof (cases "degree \<ge> 2")
    case True
    have cols: "design_columns degree (map Z sel) = [map f0 sel, map Z sel, map f2 sel]"
      using True by (simp add: design_columns_def f0_def f2_def comp_def)
    have A: "A = [[S f0 f0, S f0 Z, S f0 f2], [S Z f0, S Z Z, S Z f2], [S f2 f0, S f2 Z, S f2 f2]]"
      unfolding A_def cols normal_matrix_def by (simp add: wd)
    have b: "b = [S f0 Y, S Z Y, S f2 Y]"
      unfolding b_def cols normal_rhs_def by (simp add: wd)
    have "solves A b [p, q, 0]"
      unfolding solves_def A b by (simp add: dot_def SY)
    moreover have "square A b" unfolding A b by (simp add: square_def)
    ultimately obtain beta where beta: "lstsq A b = Inr beta" "solves A b beta"
      using H unfolding exact_solver_def by blast
    from beta(2) have "length beta = 3" unfolding solves_def b by simp
    then obtain b0 b1 b2 where bs: "beta = [b0, b1, b2]"
      by (cases beta; cases "tl beta"; cases "tl (tl beta)") auto
    from beta(2) have eqs:
      "S f0 f0 * b0 + S f0 Z * b1 + S f0 f2 * b2 = S f0 f0 * p + S f0 Z * q"
      "S Z f0 * b0 + S Z Z * b1 + S Z f2 * b2 = S Z f0 * p + S Z Z * q"
      "S f2 f0 * b0 + S f2 Z * b1 + S f2 f2 * b2 = S f2 f0 * p + S f2 Z * q"
      unfolding solves_def A b bs by (simp_all add: dot_def SY)
    have "b0 - p = 0"
      by (rule key[of "b0 - p" "b1 - q" b2]) (use eqs in \<open>simp_all add: algebra_simps\<close>)
    then show ?thesis unfolding fit beta(1) bs p_def by simp
  next
    case False
    have cols: "design_columns degree (map Z sel) = [map f0 sel, map Z sel]"
      using False by (simp add: design_columns_def f0_def comp_def)
    have A: "A = [[S f0 f0, S f0 Z], [S Z f0, S Z Z]]"
      unfolding A_def cols normal_matrix_def by (simp add: wd)
    have b: "b = [S f0 Y, S Z Y]"
      unfolding b_def cols normal_rhs_def by (simp add: wd)
    have "solves A b [p, q]"
      unfolding solves_def A b by (simp add: dot_def SY)
    moreover have "square A b" unfolding A b by (simp add: square_def)
    ultimately obtain beta where beta: "lstsq A b = Inr beta" "solves A b beta"
      using H unfolding exact_solver_def by blast
    from beta(2) have "length beta = 2" unfolding solves_def b by simp
    then obtain b0 b1 where bs: "beta = [b0, b1]"
      by (cases beta; cases "tl beta") auto
    from beta(2) have eqs:
      "S f0 f0 * b0 + S f0 Z * b1 = S f0 f0 * p + S f0 Z * q"
      "S Z f0 * b0 + S Z Z * b1 = S Z f0 * p + S Z Z * q"
      unfolding solves_def A b bs by (simp_all add: dot_def SY)
    have "b0 - p = 0"
      by (rule key[of "b0 - p" "b1 - q" 0]) (use eqs in \<open>simp_all add: algebra_simps\<close>)
    then show ?thesis unfolding fit beta(1) bs p_def by simp
  qed
qed


lemma unique_first_subset: "set (unique_first ps) \<subseteq> set ps"
  by (induction ps rule: unique_first.induct) auto

lemma sort_unique_subset: "set (sort_unique x y) \<subseteq> set (zip x y)"
  unfolding sort_unique_def using unique_first_subset[of "sort_key fst (zip x y)"] by simp

lemma sort_unique_keys: "length y = length x \<Longrightarrow> fst ` set (sort_unique x y) = set x"
proof -
  assume len: "length y = length x"
  have "fst ` set (sort_unique x y) = fst ` set (zip x y)"
    unfolding sort_unique_def unique_first_keys by simp
  also have "\<dots> = set (map fst (zip x y))" by simp
  also have "\<dots> = set x" using len by (simp only: map_fst_zip)
  finally show ?thesis .
qed

lemma loess_smooth_linear:
  assumes H: "exact_solver lstsq" and len: "length y = length x"
    and lin: "\<forall>i < length x. y ! i = a * x ! i + c"
  shows "loess_smooth lstsq x y spn degree = Inr y"
proof (cases "length x = 0 \<or> length x = 1 \<or> spn \<le> 0")
  case True
  then show ?thesis by (auto simp: loess_smooth_def Let_def)
next
  case False
  define pts where "pts = sort_unique x y"
  define k where "k = neighbourhood_k spn degree (length pts)"
  have plin: "\<forall>p \<in> set pts. snd p = a * fst p + c"
  proof
    fix p assume "p \<in> set pts"
    then have "p \<in> set (zip x y)" using sort_unique_subset unfolding pts_def by blast
    then obtain i where "i < length x" "p = (x ! i, y ! i)"
      using len by (auto simp: set_zip)
    with lin show "snd p = a * fst p + c" by simp
  qed
  have keys: "fst ` set pts = set x" unfolding pts_def by (rule sort_unique_keys[OF len])
  have strict: "sorted_wrt (<) (map fst pts)" unfolding pts_def by (rule sort_unique_strict)
  have "\<forall>p \<in> set pts. fit_at lstsq degree k pts (fst p) = Inr (snd p)"
  proof
    fix p assume p: "p \<in> set pts"
    then have "fst p \<in> fst ` set pts" by simp
    from fit_at_linear[OF H plin this, of k degree] neighbourhood_k_pos[of spn degree "length pts"]
    have "fit_at lstsq degree k pts (fst p) = Inr (a * fst p + c)" unfolding k_def by simp
    with plin p show "fit_at lstsq degree k pts (fst p) = Inr (snd p)" by simp
  qed
  from collect_map_Inr[OF this]
  have fits: "collect (map (\<lambda>p. fit_at lstsq degree k pts (fst p)) pts) = Inr (map snd pts)" .
  have "\<forall>v \<in> set x. interp v pts = Inr (a * v + c)"
  proof
    fix v assume "v \<in> set x"
    with keys have "v \<in> fst ` set pts" by simp
    then obtain p where p: "p \<in> set pts" "fst p = v" by (auto simp: image_iff)
    with plin have "(v, a * v + c) \<in> set pts" by (metis prod.collapse)
    from interp_at_knot[OF strict this] show "interp v pts = Inr (a * v + c)" .
  qed
  from collect_map_Inr[OF this]
  have "collect (map (\<lambda>v. interp v pts) x) = Inr (map (\<lambda>v. a * v + c) x)" .
  moreover have "map (\<lambda>v. a * v + c) x = y"
    by (rule nth_equalityI) (use len lin in simp_all)
  ultimately have "collect (map (\<lambda>v. interp v pts) x) = Inr y" by simp
  then show ?thesis
    using False len unfolding loess_smooth_def Let_def pts_def[symmetric] k_def[symmetric] fits
    by (simp add: zip_map_fst_snd)
qed

text \<open>
  Claim C9. Let \<open>lstsq\<close> return a solution of every square system that has one, and let
  \<open>y\<close> have as many values as \<open>x\<close>. If \<open>y\<close> is constant, the smoother returns \<open>y\<close>, for
  every span and degree. If \<open>y\<close> lies on a straight line in \<open>x\<close>, the smoother returns \<open>y\<close>,
  for every span and for degree 2 (as for any other degree). The arithmetic is exact.
\<close>

theorem smoother_identity:
  assumes "exact_solver lstsq" and "length y = length x"
  shows "((\<forall>i < length x. y ! i = c) \<longrightarrow> loess_smooth lstsq x y spn degree = Inr y)
       \<and> ((\<forall>i < length x. y ! i = a * x ! i + c) \<longrightarrow> loess_smooth lstsq x y spn 2 = Inr y)
       \<and> ((\<forall>i < length x. y ! i = a * x ! i + c) \<longrightarrow> loess_smooth lstsq x y spn degree = Inr y)"
  using loess_smooth_linear[OF assms, of 0 c spn degree]
    loess_smooth_linear[OF assms, of a c spn 2] loess_smooth_linear[OF assms, of a c spn degree]
  by simp

lemma line_example: "\<forall>i < length [0, 1, 2, 4 :: real]. [1, 3, 5, 9] ! i = 2 * [0, 1, 2, 4] ! i + (1 :: real)"
  by (simp add: nth_Cons' less_Suc_eq numeral_eq_Suc)

lemma constant_example: "\<forall>i < length [0, 1, 1, 4 :: real]. [7, 7, 7, 7] ! i = (7 :: real)"
  by (simp add: nth_Cons' less_Suc_eq numeral_eq_Suc)

theorem smoother_identity_witness:
  "loess_smooth elimination_solver [0, 1, 1, 4] [7, 7, 7, 7] (3 / 10) 1 = Inr [7, 7, 7, 7]
   \<and> loess_smooth elimination_solver [0, 1, 2, 4] [1, 3, 5, 9] (3 / 4) 2 = Inr [1, 3, 5, 9]"
  using smoother_identity[OF elimination_solver_exact, of "[7, 7, 7, 7]" "[0, 1, 1, 4]" 7 "3 / 10" 1 0]
    smoother_identity[OF elimination_solver_exact, of "[1, 3, 5, 9]" "[0, 1, 2, 4]" 1 "3 / 4" 2 2]
    line_example constant_example
  by simp

end
